theory Spec2Isabelle
  imports Complex_Main "HOL-Library.Char_ord" "HOL-Library.List_Lexorder" "HOL-Library.AList"
    "HOL-Library.Multiset"
begin

text \<open>
  The leaderboard update engine of the gaming leaderboard service, embedded function by
  function: the batch handler \<open>eachBatch\<close> of the consumer that reads the
  \<open>score-submitted\<close> topic; from the store service \<open>getPlayerRank\<close>, \<open>getPlayerScore\<close>,
  \<open>updateWeeklyLeaderboard\<close>, \<open>getWeekIdentifier\<close>, \<open>getAllGameModes\<close> and
  \<open>needsRebuild\<close>; from the connection module \<open>resetConsumerOffsetToEarliest\<close>. The
  store and the broker are modelled by what their commands do; awaited calls run to
  completion in program order.
\<close>

section \<open>JavaScript values\<close>

text \<open>
  The consumer reads dynamically typed JSON. A decoded property is one of the values
  below; \<open>JUndefined\<close> is what reading a missing property yields. Numbers are
  mathematical integers (the data model types \<open>score\<close> and \<open>gameMode\<close> as integers).
  Outside the model: properties that hold an object or an array, numbers with a
  fraction, and the rounding of doubles beyond \<open>2^53\<close>.
\<close>

datatype jsval = JUndefined | JNull | JBool bool | JNum int | JStr string

text \<open>\<open>!v\<close>: the values JavaScript treats as false.\<close>

fun falsy :: "jsval \<Rightarrow> bool" where
  "falsy JUndefined = True"
| "falsy JNull = True"
| "falsy (JBool b) = (\<not> b)"
| "falsy (JNum n) = (n = 0)"
| "falsy (JStr s) = (s = [])"

subsection \<open>Decimal rendering and parsing\<close>

definition digit_char :: "nat \<Rightarrow> char" where
  "digit_char n = ''0123456789'' ! n"

fun dec_nat :: "nat \<Rightarrow> string" where
  "dec_nat n = (if n < 10 then [digit_char n] else dec_nat (n div 10) @ [digit_char (n mod 10)])"

declare dec_nat.simps [simp del]

definition dec_int :: "int \<Rightarrow> string" where
  "dec_int i = (if i < 0 then CHR ''-'' # dec_nat (nat (- i)) else dec_nat (nat i))"

text \<open>\<open>String(v)\<close>, as used by template literals \<open>`${v}`\<close>.\<close>

fun toString :: "jsval \<Rightarrow> string" where
  "toString JUndefined = ''undefined''"
| "toString JNull = ''null''"
| "toString (JBool b) = (if b then ''true'' else ''false'')"
| "toString (JNum n) = dec_int n"
| "toString (JStr s) = s"

definition digit_val :: "char \<Rightarrow> nat option" where
  "digit_val c = (if c \<in> set ''0123456789'' then Some (of_char c - 48) else None)"

fun parse_digits :: "string \<Rightarrow> nat \<Rightarrow> nat option" where
  "parse_digits [] acc = Some acc"
| "parse_digits (c # cs) acc =
     (case digit_val c of None \<Rightarrow> None | Some d \<Rightarrow> parse_digits cs (10 * acc + d))"

text \<open>
  A decimal integer literal with an optional minus sign, as the store reads the
  argument of an integer command. \<open>None\<close> stands for the error reply. The literals
  that the store's floating-point commands read beyond these (a fraction part, an
  exponent, \<open>inf\<close>) are not covered: the model reads them as no number.
\<close>

fun parse_int :: "string \<Rightarrow> int option" where
  "parse_int [] = None"
| "parse_int (c # cs) =
     (if c = CHR ''-'' then (if cs = [] then None else map_option (\<lambda>n. - int n) (parse_digits cs 0))
      else map_option int (parse_digits (c # cs) 0))"

text \<open>
  The result of \<open>Number(v)\<close>. Numbers of the model are integers, so a result is
  \<open>NaN\<close>, an integer, or \<open>OtherNumber\<close>: a JavaScript number that the model does not
  hold, which is a fraction, an infinity, or an integer outside the safe range
  \<open>-(2^53 - 1) .. 2^53 - 1\<close> (where a double no longer holds every integer and the
  literal is rounded).
\<close>

datatype jsnumber = NaN | Num int | OtherNumber

definition safeInteger :: "int \<Rightarrow> jsnumber" where
  "safeInteger v = (if \<bar>v\<bar> \<le> 2 ^ 53 - 1 then Num v else OtherNumber)"

fun negate :: "jsnumber \<Rightarrow> jsnumber" where
  "negate (Num n) = Num (- n)"
| "negate x = x"

text \<open>
  \<open>StringToNumber\<close> of the language definition, which \<open>Number\<close> applies to a string.
  White space is trimmed; the empty string is 0; what remains must be one literal:

    \<^item> \<open>0x\<close>, \<open>0o\<close> or \<open>0b\<close> (in either case) followed by digits of that radix, unsigned;
    \<^item> an optional sign followed by \<open>Infinity\<close>, or by decimal digits with an optional
      fraction part (\<open>12\<close>, \<open>12.\<close>, \<open>12.5\<close>, \<open>.5\<close>) and an optional exponent part
      (\<open>e\<close> or \<open>E\<close>, an optional sign, decimal digits).

  Anything else is \<open>NaN\<close>. The value of a decimal literal is its mantissa, read without
  the point, times ten to the power of the exponent minus the number of fraction
  digits; it is computed exactly and is a \<open>Num\<close> when it is an integer of the safe
  range. A string with a character outside ASCII (where the white space of Unicode
  would have to be trimmed as well) is left undetermined as \<open>OtherNumber\<close>.
\<close>

definition is_space :: "char \<Rightarrow> bool" where
  "is_space c = (c \<in> set [CHR '' '', CHR 0x09, CHR 0x0A, CHR 0x0B, CHR 0x0C, CHR 0x0D])"

definition trim :: "string \<Rightarrow> string" where
  "trim s = rev (dropWhile is_space (rev (dropWhile is_space s)))"

definition is_digit :: "char \<Rightarrow> bool" where
  "is_digit c = (digit_val c \<noteq> None)"

definition radix_val :: "nat \<Rightarrow> char \<Rightarrow> nat option" where
  "radix_val r c =
     (let n = of_char c :: nat;
          d = (if 48 \<le> n \<and> n \<le> 57 then Some (n - 48)
               else if 97 \<le> n \<and> n \<le> 102 then Some (n - 87)
               else if 65 \<le> n \<and> n \<le> 70 then Some (n - 55)
               else None)
      in case d of None \<Rightarrow> None | Some v \<Rightarrow> if v < r then Some v else None)"

fun parse_radix :: "nat \<Rightarrow> string \<Rightarrow> nat \<Rightarrow> nat option" where
  "parse_radix r [] acc = Some acc"
| "parse_radix r (c # cs) acc =
     (case radix_val r c of None \<Rightarrow> None | Some d \<Rightarrow> parse_radix r cs (r * acc + d))"

definition NonDecimalIntegerLiteral :: "string \<Rightarrow> nat option" where
  "NonDecimalIntegerLiteral s =
     (case s of
        z # x # ds \<Rightarrow>
          if z = CHR ''0'' \<and> ds \<noteq> []
          then (if x = CHR ''x'' \<or> x = CHR ''X'' then parse_radix 16 ds 0
                else if x = CHR ''o'' \<or> x = CHR ''O'' then parse_radix 8 ds 0
                else if x = CHR ''b'' \<or> x = CHR ''B'' then parse_radix 2 ds 0
                else None)
          else None
      | _ \<Rightarrow> None)"

definition DecimalDigits :: "string \<Rightarrow> nat option" where
  "DecimalDigits s = (if s = [] then None else parse_digits s 0)"

text \<open>The exponent that follows the mantissa: 0 when nothing follows.\<close>

definition ExponentPart :: "string \<Rightarrow> int option" where
  "ExponentPart r =
     (case r of
        [] \<Rightarrow> Some 0
      | c # r1 \<Rightarrow>
          if c = CHR ''e'' \<or> c = CHR ''E''
          then (case r1 of
                  [] \<Rightarrow> None
                | d # r2 \<Rightarrow>
                    if d = CHR ''+'' then map_option int (DecimalDigits r2)
                    else if d = CHR ''-'' then map_option (\<lambda>n. - int n) (DecimalDigits r2)
                    else map_option int (DecimalDigits r1))
          else None)"

text \<open>\<open>m\<close> times ten to the power \<open>k\<close>, when that is an integer of the safe range.\<close>

definition scale10 :: "nat \<Rightarrow> int \<Rightarrow> jsnumber" where
  "scale10 m k =
     (if 0 \<le> k then safeInteger (int m * 10 ^ nat k)
      else if 10 ^ nat (- k) dvd m then safeInteger (int (m div 10 ^ nat (- k)))
      else OtherNumber)"

definition mantissa :: "string \<Rightarrow> nat \<Rightarrow> int option \<Rightarrow> jsnumber" where
  "mantissa ds f e =
     (case parse_digits ds 0 of
        None \<Rightarrow> NaN
      | Some m \<Rightarrow> (case e of None \<Rightarrow> NaN | Some x \<Rightarrow> scale10 m (x - int f)))"

definition StrUnsignedDecimalLiteral :: "string \<Rightarrow> jsnumber" where
  "StrUnsignedDecimalLiteral s =
     (if s = ''Infinity'' then OtherNumber
      else
        (let ip = takeWhile is_digit s; r = dropWhile is_digit s
         in if r \<noteq> [] \<and> hd r = CHR ''.''
            then (let fp = takeWhile is_digit (tl r); r2 = dropWhile is_digit (tl r)
                  in if ip = [] \<and> fp = [] then NaN
                     else mantissa (ip @ fp) (length fp) (ExponentPart r2))
            else if ip = [] then NaN
            else mantissa ip 0 (ExponentPart r)))"

definition StrDecimalLiteral :: "string \<Rightarrow> jsnumber" where
  "StrDecimalLiteral s =
     (case s of
        [] \<Rightarrow> NaN
      | c # cs \<Rightarrow>
          if c = CHR ''+'' then StrUnsignedDecimalLiteral cs
          else if c = CHR ''-'' then negate (StrUnsignedDecimalLiteral cs)
          else StrUnsignedDecimalLiteral s)"

definition StringToNumber :: "string \<Rightarrow> jsnumber" where
  "StringToNumber s =
     (if list_ex (\<lambda>c. 128 \<le> (of_char c :: nat)) s then OtherNumber
      else if trim s = [] then Num 0
      else (case NonDecimalIntegerLiteral (trim s) of
              Some n \<Rightarrow> safeInteger (int n)
            | None \<Rightarrow> StrDecimalLiteral (trim s)))"

text \<open>
  \<open>Number(v)\<close>: \<open>undefined\<close> is \<open>NaN\<close>, \<open>null\<close> is 0, booleans are 0 and 1, a number
  is itself, a string is read by \<open>StringToNumber\<close>.
\<close>

fun Number_js :: "jsval \<Rightarrow> jsnumber" where
  "Number_js JUndefined = NaN"
| "Number_js JNull = Num 0"
| "Number_js (JBool b) = Num (if b then 1 else 0)"
| "Number_js (JNum n) = Num n"
| "Number_js (JStr s) = StringToNumber s"

text \<open>\<open>haystack.includes(needle)\<close> and \<open>s.startsWith(p)\<close>.\<close>

fun startsWith :: "string \<Rightarrow> string \<Rightarrow> bool" where
  "startsWith s [] = True"
| "startsWith [] (p # ps) = False"
| "startsWith (c # cs) (p # ps) = (c = p \<and> startsWith cs ps)"

fun includes_js :: "string \<Rightarrow> string \<Rightarrow> bool" where
  "includes_js [] needle = (needle = [])"
| "includes_js (c # cs) needle = (startsWith (c # cs) needle \<or> includes_js cs needle)"

text \<open>\<open>s.padStart(n, "0")\<close>.\<close>

definition padStart :: "nat \<Rightarrow> string \<Rightarrow> string" where
  "padStart n s = replicate (n - length s) (CHR ''0'') @ s"

section \<open>The clock\<close>

text \<open>
  What the code reads from \<open>new Date()\<close>: the ISO-8601 rendering (UTC), the local
  calendar year \<open>getFullYear()\<close>, the weekday \<open>getDay()\<close> of the local 1 January
  (Sunday is 0), and the milliseconds \<open>date - startOfYear\<close> elapsed since local midnight
  of 1 January. The \<open>Date\<close> object belongs to the runtime, so these are inputs.
\<close>

record clock =
  nowIso :: string
  fullYear :: int
  jan1Day :: nat
  msSinceJan1 :: nat

text \<open>\<open>new Date().toISOString().split("T")[0]\<close>\<close>

definition todayOf :: "clock \<Rightarrow> string" where
  "todayOf clk = takeWhile (\<lambda>c. c \<noteq> CHR ''T'') (nowIso clk)"

text \<open>
  \<open>getWeekIdentifier\<close>: \<open>pastDaysOfYear = (date - startOfYear) / 86400000\<close> is a
  quotient, not rounded; \<open>weekNumber = Math.ceil((pastDaysOfYear + getDay + 1) / 7)\<close>.
  The quotients are exact rationals here; a double differs from them by a relative
  error far below the distance \<open>1 / (7 * 86400000)\<close> of the nearest value that is not
  an integer, so the ceiling is the same.
\<close>

definition pastDaysOfYear :: "clock \<Rightarrow> rat" where
  "pastDaysOfYear clk = of_nat (msSinceJan1 clk) / 86400000"

definition weekNumber :: "clock \<Rightarrow> int" where
  "weekNumber clk = \<lceil>(pastDaysOfYear clk + of_nat (jan1Day clk) + 1) / 7\<rceil>"

definition getWeekIdentifier :: "clock \<Rightarrow> string" where
  "getWeekIdentifier clk =
     dec_int (fullYear clk) @ ''-W'' @ padStart 2 (dec_int (weekNumber clk))"




section \<open>The event log client: resetting the consumer group\<close>

text \<open>
  \<open>resetConsumerOffsetToEarliest\<close> talks to the broker through five awaited calls.
  Each either resolves or rejects with an error whose \<open>message\<close> may be absent; the
  broker's answers are the input. The function returns its boolean together with the
  lines it logs, which tell the branches apart.
\<close>

datatype outcome = Resolves | Rejects "string option"

record broker =
  adminConnect :: outcome
  consumerDisconnect :: outcome
  deleteGroups :: outcome
  adminDisconnect :: outcome
  consumerConnect :: outcome

datatype logline =
    LogResetting | LogDisconnected | LogSkipDisconnect | LogDeletedGroup | LogGroupMissing
  | LogCouldNotDelete | LogReconnected | LogErrorReconnecting | LogErrorResetting

text \<open>\<open>deleteError.message && deleteError.message.includes("does not exist")\<close>\<close>

definition groupMissing :: "string option \<Rightarrow> bool" where
  "groupMissing m = (case m of None \<Rightarrow> False | Some msg \<Rightarrow> msg \<noteq> [] \<and> includes_js msg ''does not exist'')"

text \<open>The outer \<open>catch\<close>: log, try to reconnect the consumer, return false.\<close>

definition resetFailed :: "broker \<Rightarrow> logline list \<Rightarrow> bool \<times> logline list" where
  "resetFailed b lg =
     (False, lg @ LogErrorResetting #
        (case consumerConnect b of Resolves \<Rightarrow> [] | Rejects _ \<Rightarrow> [LogErrorReconnecting]))"

definition resetConsumerOffsetToEarliest :: "broker \<Rightarrow> bool \<times> logline list" where
  "resetConsumerOffsetToEarliest b =
     (case adminConnect b of
        Rejects _ \<Rightarrow> resetFailed b []
      | Resolves \<Rightarrow>
          (let lg1 = [LogResetting] @
                 (case consumerDisconnect b of
                    Resolves \<Rightarrow> [LogDisconnected]
                  | Rejects _ \<Rightarrow> [LogSkipDisconnect]);
               lg2 = lg1 @
                 (case deleteGroups b of
                    Resolves \<Rightarrow> [LogDeletedGroup]
                  | Rejects m \<Rightarrow> (if groupMissing m then [LogGroupMissing] else [LogCouldNotDelete]))
           in case adminDisconnect b of
                Rejects _ \<Rightarrow> resetFailed b lg2
              | Resolves \<Rightarrow>
                  (case consumerConnect b of
                     Rejects _ \<Rightarrow> (False, lg2 @ [LogErrorReconnecting])
                   | Resolves \<Rightarrow> (True, lg2 @ [LogReconnected]))))"

section \<open>The store\<close>

text \<open>
  The in-memory store holds hashes, sorted sets and plain strings, each an insertion
  ordered association list from key to value, and a time-to-live per key. A hash field
  holds a string; \<open>HInt n\<close> stands for the canonical decimal rendering of \<open>n\<close> (what
  \<open>HINCRBY\<close> accepts and produces) and \<open>HStr s\<close> for any other string. Sorted-set scores
  are integers. The three kinds of value live in separate name spaces: the engine's hash
  keys start with \<open>player:\<close> and its sorted-set keys with \<open>leaderboard:\<close>, so a key is
  never used at two types by the engine itself. \<open>game_modes\<close> is the hash of that name,
  each field abstracted to the \<open>id\<close> of its JSON document, \<open>None\<close> for a document that
  \<open>JSON.parse\<close> rejects.
\<close>

datatype hval = HInt int | HStr string

record store =
  hashes :: "(string \<times> (string \<times> hval) list) list"
  zsets :: "(string \<times> (string \<times> int) list) list"
  strs :: "(string \<times> string) list"
  ttl :: "(string \<times> nat) list"
  game_modes :: "(string \<times> int option) list"

definition allKeys :: "store \<Rightarrow> string list" where
  "allKeys st = map fst (hashes st) @ map fst (zsets st) @ map fst (strs st)
                @ (if game_modes st = [] then [] else [''game_modes''])"

definition redis_exists :: "store \<Rightarrow> string \<Rightarrow> bool" where
  "redis_exists st k = (k \<in> set (allKeys st))"

definition hashOf :: "store \<Rightarrow> string \<Rightarrow> (string \<times> hval) list" where
  "hashOf st k = (case map_of (hashes st) k of None \<Rightarrow> [] | Some h \<Rightarrow> h)"

definition hget :: "store \<Rightarrow> string \<Rightarrow> string \<Rightarrow> hval option" where
  "hget st k f = map_of (hashOf st k) f"

definition zsetOf :: "store \<Rightarrow> string \<Rightarrow> (string \<times> int) list" where
  "zsetOf st k = (case map_of (zsets st) k of None \<Rightarrow> [] | Some z \<Rightarrow> z)"

definition zscore :: "store \<Rightarrow> string \<Rightarrow> string \<Rightarrow> int option" where
  "zscore st k m = map_of (zsetOf st k) m"

definition zcard :: "store \<Rightarrow> string \<Rightarrow> nat" where
  "zcard st k = length (zsetOf st k)"

text \<open>
  \<open>ZREVRANK\<close>: the number of members that come before \<open>m\<close> when the set is read from the
  highest score down, members of equal score in descending byte order.
\<close>

definition zrevrank :: "store \<Rightarrow> string \<Rightarrow> string \<Rightarrow> nat option" where
  "zrevrank st k m =
     (case zscore st k m of
        None \<Rightarrow> None
      | Some s \<Rightarrow> Some (length (filter (\<lambda>(m', s'). s < s' \<or> (s' = s \<and> m < m')) (zsetOf st k))))"

text \<open>
  How the store reads a numeric argument that the client sends: a number arrives as its
  decimal rendering, a string as it is, anything else as text that is no number. A
  command whose argument is no number is answered with an error and changes nothing.
\<close>

fun redisNum :: "jsval \<Rightarrow> int option" where
  "redisNum (JNum n) = Some n"
| "redisNum (JStr s) = parse_int s"
| "redisNum v = None"

definition stringVal :: "string \<Rightarrow> hval" where
  "stringVal s = (case parse_int s of
                    None \<Rightarrow> HStr s
                  | Some n \<Rightarrow> if dec_int n = s then HInt n else HStr s)"

fun hvalOf :: "jsval \<Rightarrow> hval" where
  "hvalOf (JNum n) = HInt n"
| "hvalOf (JStr s) = stringVal s"
| "hvalOf (JBool b) = HStr (toString (JBool b))"
| "hvalOf v = HStr []"

datatype cmd =
    HSet string "(string \<times> hval) list"
  | HIncrBy string string jsval
  | ZIncrBy string jsval string
  | Expire string nat

definition redis_hset :: "string \<Rightarrow> (string \<times> hval) list \<Rightarrow> store \<Rightarrow> store" where
  "redis_hset k fvs st =
     st\<lparr>hashes := AList.update k (fold (\<lambda>(f, v). AList.update f v) fvs (hashOf st k)) (hashes st)\<rparr>"

definition redis_hincrby :: "string \<Rightarrow> string \<Rightarrow> jsval \<Rightarrow> store \<Rightarrow> store" where
  "redis_hincrby k f arg st =
     (case redisNum arg of
        None \<Rightarrow> st
      | Some n \<Rightarrow>
          (case hget st k f of
             Some (HStr _) \<Rightarrow> st
           | Some (HInt old) \<Rightarrow> redis_hset k [(f, HInt (old + n))] st
           | None \<Rightarrow> redis_hset k [(f, HInt n)] st))"

definition redis_zincrby :: "string \<Rightarrow> jsval \<Rightarrow> string \<Rightarrow> store \<Rightarrow> store" where
  "redis_zincrby k arg m st =
     (case redisNum arg of
        None \<Rightarrow> st
      | Some n \<Rightarrow>
          (let old = (case zscore st k m of None \<Rightarrow> 0 | Some s \<Rightarrow> s)
           in st\<lparr>zsets := AList.update k (AList.update m (old + n) (zsetOf st k)) (zsets st)\<rparr>))"

definition redis_expire :: "string \<Rightarrow> nat \<Rightarrow> store \<Rightarrow> store" where
  "redis_expire k secs st =
     (if redis_exists st k then st\<lparr>ttl := AList.update k secs (ttl st)\<rparr> else st)"

fun run_cmd :: "cmd \<Rightarrow> store \<Rightarrow> store" where
  "run_cmd (HSet k fvs) st = redis_hset k fvs st"
| "run_cmd (HIncrBy k f arg) st = redis_hincrby k f arg st"
| "run_cmd (ZIncrBy k arg m) st = redis_zincrby k arg m st"
| "run_cmd (Expire k secs) st = redis_expire k secs st"

text \<open>\<open>pipeline.exec()\<close>: the queued commands run in order; one that fails does not stop the rest.\<close>

definition exec :: "cmd list \<Rightarrow> store \<Rightarrow> store" where
  "exec cmds st = fold run_cmd cmds st"

section \<open>The store service\<close>

definition playerKey :: "jsval \<Rightarrow> string" where
  "playerKey p = ''player:'' @ toString p"

definition globalKey :: "jsval \<Rightarrow> string" where
  "globalKey gm = ''leaderboard:'' @ toString gm @ '':global''"

definition dailyKey :: "jsval \<Rightarrow> string \<Rightarrow> string" where
  "dailyKey gm today = ''leaderboard:'' @ toString gm @ '':daily:'' @ today"

definition weeklyKey :: "jsval \<Rightarrow> string \<Rightarrow> string" where
  "weeklyKey gm weekId = ''leaderboard:'' @ toString gm @ '':weekly:'' @ weekId"

text \<open>\<open>getPlayerRank(gameMode, playerId, "global")\<close>: the 1-indexed rank and the score.\<close>

definition getPlayerRank :: "store \<Rightarrow> jsval \<Rightarrow> jsval \<Rightarrow> (nat \<times> int) option" where
  "getPlayerRank st gm p =
     (case zrevrank st (globalKey gm) (toString p) of
        None \<Rightarrow> None
      | Some r \<Rightarrow>
          (case zscore st (globalKey gm) (toString p) of
             None \<Rightarrow> None
           | Some s \<Rightarrow> Some (r + 1, s)))"

text \<open>\<open>getPlayerScore(gameMode, playerId, "global")\<close>: \<open>score ? parseInt(score) : 0\<close>.\<close>

definition getPlayerScore :: "store \<Rightarrow> jsval \<Rightarrow> jsval \<Rightarrow> int" where
  "getPlayerScore st gm p =
     (case zscore st (globalKey gm) (toString p) of None \<Rightarrow> 0 | Some s \<Rightarrow> s)"

text \<open>\<open>getPlayer(playerId).games_played\<close>: \<open>parseInt(playerData.games_played || 0)\<close>.\<close>

definition games_played :: "store \<Rightarrow> jsval \<Rightarrow> int" where
  "games_played st p =
     (case hget st (playerKey p) ''games_played'' of Some (HInt n) \<Rightarrow> n | _ \<Rightarrow> 0)"

definition total_score :: "store \<Rightarrow> jsval \<Rightarrow> int" where
  "total_score st p =
     (case hget st (playerKey p) ''total_score'' of Some (HInt n) \<Rightarrow> n | _ \<Rightarrow> 0)"

text \<open>
  \<open>updateWeeklyLeaderboard\<close>. The first component tells what the function did: it
  warned and returned before sending any command, or it sent the increment and the
  expiry. When \<open>Number(score)\<close> is a number that the model does not hold, the function
  tests a value and may send an increment that the integer scores of the model's
  sorted sets cannot take up: the step is marked as not covered and the store is
  returned as it was.
\<close>

datatype weeklyStep = Warned | Sent | NotCovered

definition updateWeeklyLeaderboard ::
  "clock \<Rightarrow> jsval \<Rightarrow> jsval \<Rightarrow> jsval \<Rightarrow> store \<Rightarrow> weeklyStep \<times> store" where
  "updateWeeklyLeaderboard clk gm p sc st =
     (case Number_js sc of
        NaN \<Rightarrow> (Warned, st)
      | OtherNumber \<Rightarrow> (NotCovered, st)
      | Num numericScore \<Rightarrow>
          if numericScore = 0 then (Warned, st)
          else
            (let k = weeklyKey gm (getWeekIdentifier clk)
             in (Sent, redis_expire k (28 * 24 * 60 * 60)
                         (redis_zincrby k (JNum numericScore) (toString p) st))))"

section \<open>The batch handler\<close>

text \<open>
  A decoded message. Reading a property of a decoded object gives its value or
  \<open>undefined\<close>; a decoded number, string, boolean or array has none of the four
  properties. \<open>Unparsable\<close> is a message on which \<open>JSON.parse\<close> throws, or which decodes
  to \<open>null\<close>, whose property read throws: both end in the same \<open>catch\<close>.
\<close>

record event =
  playerId :: jsval
  username :: jsval
  gameMode :: jsval
  score :: jsval

datatype message = Unparsable | Decoded event

record notification =
  n_gameMode :: jsval
  n_playerId :: jsval
  newRank :: nat
  oldRank :: "nat option"
  n_score :: int

text \<open>
  The module-scope variables of the consumer together with the store and with what has
  been sent to the \<open>leaderboard-updated\<close> topic and to the cache purge client. The
  time of the last batch and the timer that ends a rebuild after five idle seconds are
  left out: the handler is modelled as it runs between two firings of that timer.
\<close>

record engine =
  redis :: store
  isRebuilding :: bool
  consecutiveEmptyBatches :: nat
  published :: "notification list"
  purged :: "string list list"

definition EMPTY_BATCH_THRESHOLD :: nat where
  "EMPTY_BATCH_THRESHOLD = 3"

text \<open>The parsing loop; \<open>events\<close> is the array that \<open>events.push\<close> extends.\<close>

fun parseMessages :: "message list \<Rightarrow> event list \<Rightarrow> event list" where
  "parseMessages [] events = events"
| "parseMessages (Unparsable # ms) events = parseMessages ms events"
| "parseMessages (Decoded ev # ms) events =
     (if falsy (playerId ev) \<or> score ev = JUndefined \<or> score ev = JNull \<or> score ev = JStr []
      then parseMessages ms events
      else parseMessages ms (events @ [ev]))"

definition eventKey :: "event \<Rightarrow> string" where
  "eventKey ev = toString (playerId ev) @ '':'' @ toString (gameMode ev)"

text \<open>
  \<open>initialRanks\<close>: one read of the global rank per distinct key, before any update.
  The keys of the map are the set \<open>seenKeys\<close>.
\<close>

fun snapshotRanks ::
  "store \<Rightarrow> event list \<Rightarrow> (string \<times> nat option) list \<Rightarrow> (string \<times> nat option) list" where
  "snapshotRanks st [] initialRanks = initialRanks"
| "snapshotRanks st (ev # evs) initialRanks =
     (if eventKey ev \<in> fst ` set initialRanks then snapshotRanks st evs initialRanks
      else snapshotRanks st evs
             (initialRanks @
                [(eventKey ev, map_option fst (getPlayerRank st (gameMode ev) (playerId ev)))]))"

text \<open>\<open>initialRanks.get(key)\<close>; a key that is not in the map reads as no rank.\<close>

definition initialRankOf :: "(string \<times> nat option) list \<Rightarrow> string \<Rightarrow> nat option" where
  "initialRankOf initialRanks key = (case map_of initialRanks key of None \<Rightarrow> None | Some r \<Rightarrow> r)"

text \<open>\<open>eventGroups\<close>: a \<open>Map\<close> in insertion order from key to the events of that key.\<close>

definition pushGroup ::
  "event \<Rightarrow> (string \<times> event list) list \<Rightarrow> (string \<times> event list) list" where
  "pushGroup ev groups =
     (case map_of groups (eventKey ev) of
        None \<Rightarrow> groups @ [(eventKey ev, [ev])]
      | Some evs \<Rightarrow> AList.update (eventKey ev) (evs @ [ev]) groups)"

definition groupEvents :: "event list \<Rightarrow> (string \<times> event list) list" where
  "groupEvents events = fold pushGroup events []"

definition standaloneOf :: "(string \<times> event list) list \<Rightarrow> event list" where
  "standaloneOf groups = concat (map (\<lambda>(key, evs). if length evs = 1 then [hd evs] else []) groups)"

text \<open>The commands one event queues into its pipeline before the weekly update.\<close>

definition eventCmdsHead :: "string \<Rightarrow> string \<Rightarrow> bool \<Rightarrow> event \<Rightarrow> cmd list" where
  "eventCmdsHead today createdAt playerExists ev =
     [if \<not> playerExists
      then HSet (playerKey (playerId ev))
             [(''username'', hvalOf (username ev)), (''total_score'', HInt 0),
              (''games_played'', HInt 0), (''created_at'', HStr createdAt)]
      else HSet (playerKey (playerId ev)) [(''username'', hvalOf (username ev))],
      ZIncrBy (globalKey (gameMode ev)) (score ev) (toString (playerId ev)),
      ZIncrBy (dailyKey (gameMode ev) today) (score ev) (toString (playerId ev)),
      Expire (dailyKey (gameMode ev) today) (7 * 24 * 60 * 60)]"

text \<open>The commands it queues after the weekly update.\<close>

definition eventCmdsTail :: "event \<Rightarrow> cmd list" where
  "eventCmdsTail ev =
     [HIncrBy (playerKey (playerId ev)) ''total_score'' (score ev),
      HIncrBy (playerKey (playerId ev)) ''games_played'' (JNum 1)]"

definition top100Paths :: "jsval \<Rightarrow> string list" where
  "top100Paths gm =
     [''/api/leaderboard/'' @ toString gm @ ''/top100'',
      ''/api/leaderboard/'' @ toString gm @ ''?limit=100&offset=0'',
      ''/api/leaderboard/'' @ toString gm @ ''?type=global&limit=100&offset=0'']"

text \<open>
  The rank comparison both paths make once the new rank has been read: publish when
  there is a new rank and it differs from the previous one, then purge the cache when
  either rank is within the first hundred.
\<close>

definition publishRankChange ::
  "event \<Rightarrow> nat option \<Rightarrow> (nat \<times> int) option \<Rightarrow> engine \<Rightarrow> engine" where
  "publishRankChange ev previousRank newRankData eng =
     (case newRankData of
        None \<Rightarrow> eng
      | Some (rank, sc) \<Rightarrow>
          if Some rank \<noteq> previousRank then
            (let eng1 = eng\<lparr>published := published eng @
                           [\<lparr>n_gameMode = gameMode ev, n_playerId = playerId ev,
                             newRank = rank, oldRank = previousRank, n_score = sc\<rparr>]\<rparr>
             in if (case previousRank of None \<Rightarrow> False | Some r \<Rightarrow> r \<le> 100) \<or> rank \<le> 100
                then eng1\<lparr>purged := purged eng1 @ [top100Paths (gameMode ev)]\<rparr>
                else eng1)
          else eng)"

text \<open>
  What one event of a group of several does to the store: the existence of the player
  is read, the first commands are queued, the weekly update is awaited, the last
  commands are queued and the pipeline is executed.
\<close>

definition applyEvent :: "clock \<Rightarrow> event \<Rightarrow> store \<Rightarrow> store" where
  "applyEvent clk ev st =
     (let playerExists = redis_exists st (playerKey (playerId ev));
          pipeline = eventCmdsHead (todayOf clk) (nowIso clk) playerExists ev;
          st1 = snd (updateWeeklyLeaderboard clk (gameMode ev) (playerId ev) (score ev) st)
      in exec (pipeline @ eventCmdsTail ev) st1)"

text \<open>
  One event of a group of several: the previous rank is the tracked one when there is
  one and the snapshot otherwise; the event is applied; the new rank is read and
  tracked; the comparison is made unless the engine is rebuilding.
\<close>

definition processGroupEvent ::
  "clock \<Rightarrow> (string \<times> nat option) list \<Rightarrow> string \<Rightarrow> event
     \<Rightarrow> engine \<times> (string \<times> nat) list \<Rightarrow> engine \<times> (string \<times> nat) list" where
  "processGroupEvent clk initialRanks key ev = (\<lambda>(eng, currentRanks).
     (let previousRank = (case map_of currentRanks key of
                            Some r \<Rightarrow> Some r
                          | None \<Rightarrow> initialRankOf initialRanks key);
          st2 = applyEvent clk ev (redis eng);
          newRankData = getPlayerRank st2 (gameMode ev) (playerId ev);
          currentRanks' = (case newRankData of
                             None \<Rightarrow> currentRanks
                           | Some (rank, sc) \<Rightarrow> AList.update key rank currentRanks);
          eng2 = eng\<lparr>redis := st2\<rparr>
      in (if \<not> isRebuilding eng2 then publishRankChange ev previousRank newRankData eng2 else eng2,
          currentRanks')))"

definition processGroup ::
  "clock \<Rightarrow> (string \<times> nat option) list \<Rightarrow> string \<times> event list
     \<Rightarrow> engine \<times> (string \<times> nat) list \<Rightarrow> engine \<times> (string \<times> nat) list" where
  "processGroup clk initialRanks = (\<lambda>(key, groupEvents) acc.
     if length groupEvents > 1
     then fold (processGroupEvent clk initialRanks key) groupEvents acc
     else acc)"

text \<open>
  A standalone event: its commands are queued into the shared pipeline; the weekly
  update is started without being awaited, and its commands reach the store ahead of
  the pipeline, which is executed only after the loop.
\<close>

definition queueStandalone :: "clock \<Rightarrow> event \<Rightarrow> store \<times> cmd list \<Rightarrow> store \<times> cmd list" where
  "queueStandalone clk ev = (\<lambda>(st, pipeline).
     (let playerExists = redis_exists st (playerKey (playerId ev));
          pipeline1 = pipeline @ eventCmdsHead (todayOf clk) (nowIso clk) playerExists ev;
          st1 = snd (updateWeeklyLeaderboard clk (gameMode ev) (playerId ev) (score ev) st)
      in (st1, pipeline1 @ eventCmdsTail ev)))"

definition publishStandalone :: "(string \<times> nat option) list \<Rightarrow> event \<Rightarrow> engine \<Rightarrow> engine" where
  "publishStandalone initialRanks ev eng =
     publishRankChange ev (initialRankOf initialRanks (eventKey ev))
       (getPlayerRank (redis eng) (gameMode ev) (playerId ev)) eng"

definition processStandalone ::
  "clock \<Rightarrow> (string \<times> nat option) list \<Rightarrow> event list \<Rightarrow> engine \<Rightarrow> engine" where
  "processStandalone clk initialRanks standaloneEvents eng =
     (if standaloneEvents = [] then eng
      else
        (let (st1, pipeline) = fold (queueStandalone clk) standaloneEvents (redis eng, []);
             eng1 = eng\<lparr>redis := exec pipeline st1\<rparr>
         in if \<not> isRebuilding eng1
            then fold (publishStandalone initialRanks) standaloneEvents eng1
            else eng1))"

text \<open>
  \<open>eachBatch\<close>. No time passes within a batch: the clock is one input of the handler.
  During a rebuild an empty batch is counted and ends the handler, the third in a row
  ending the rebuild.
\<close>

definition eachBatch :: "clock \<Rightarrow> message list \<Rightarrow> engine \<Rightarrow> engine" where
  "eachBatch clk messages eng =
     (let events = parseMessages messages [] in
      if isRebuilding eng \<and> events = [] then
        (if consecutiveEmptyBatches eng + 1 \<ge> EMPTY_BATCH_THRESHOLD
         then eng\<lparr>isRebuilding := False, consecutiveEmptyBatches := 0\<rparr>
         else eng\<lparr>consecutiveEmptyBatches := consecutiveEmptyBatches eng + 1\<rparr>)
      else
        (let eng0 = (if isRebuilding eng then eng\<lparr>consecutiveEmptyBatches := 0\<rparr> else eng) in
         if events = [] then eng0
         else
           (let initialRanks = snapshotRanks (redis eng0) events [];
                eventGroups = groupEvents events;
                standaloneEvents = standaloneOf eventGroups;
                (eng1, currentRanks) = fold (processGroup clk initialRanks) eventGroups (eng0, [])
            in processStandalone clk initialRanks standaloneEvents eng1)))"

text \<open>The consumer loop: the handler runs on each delivered batch in turn.\<close>

definition runBatches :: "(clock \<times> message list) list \<Rightarrow> engine \<Rightarrow> engine" where
  "runBatches batches eng = fold (\<lambda>(clk, messages). eachBatch clk messages) batches eng"

section \<open>The recovery check\<close>

text \<open>
  \<open>needsRebuild\<close> reads the store through awaited calls, any of which may throw. The
  connection is a budget: \<open>Some n\<close> lets \<open>n\<close> calls through and fails the next,
  \<open>None\<close> never fails. \<open>JSON.parse\<close> of a malformed game mode throws as well.
\<close>

datatype rebuildError = StoreError | JsonError

definition tick :: "nat option \<Rightarrow> rebuildError + nat option" where
  "tick c = (case c of None \<Rightarrow> Inr None | Some 0 \<Rightarrow> Inl StoreError | Some (Suc n) \<Rightarrow> Inr (Some n))"

fun parseModes :: "(string \<times> int option) list \<Rightarrow> rebuildError + int list" where
  "parseModes [] = Inr []"
| "parseModes ((field, None) # entries) = Inl JsonError"
| "parseModes ((field, Some i) # entries) =
     (case parseModes entries of Inl e \<Rightarrow> Inl e | Inr ids \<Rightarrow> Inr (i # ids))"

text \<open>\<open>getAllGameModes\<close>: one \<open>HGETALL\<close>, every value decoded, the result sorted by id.\<close>

definition getAllGameModes :: "store \<Rightarrow> nat option \<Rightarrow> rebuildError + int list \<times> nat option" where
  "getAllGameModes st c =
     (case tick c of
        Inl e \<Rightarrow> Inl e
      | Inr c' \<Rightarrow>
          (case parseModes (game_modes st) of
             Inl e \<Rightarrow> Inl e
           | Inr ids \<Rightarrow> Inr (sort ids, c')))"

text \<open>
  \<open>redis.scan(cursor, "MATCH", "player:*", "COUNT", 100)\<close>: the cursor is a position in
  the key space; a call looks at the next hundred keys, returns those that match and
  the next cursor, which is 0 when the key space is exhausted.
\<close>

definition scanPlayers :: "store \<Rightarrow> nat \<Rightarrow> nat \<times> string list" where
  "scanPlayers st cursor =
     (if length (allKeys st) \<le> cursor + 100 then 0 else cursor + 100,
      filter (\<lambda>k. startsWith k ''player:'') (take 100 (drop cursor (allKeys st))))"

text \<open>\<open>keys.filter(key => !key.includes(":last_submission"))\<close>\<close>

definition playerKeysOf :: "string list \<Rightarrow> string list" where
  "playerKeysOf keys = filter (\<lambda>key. \<not> includes_js key '':last_submission'') keys"

text \<open>
  What one pass of either loop adds to \<open>playerCount\<close>: of the keys looked at, those
  that match \<open>player:*\<close> and do not contain \<open>:last_submission\<close> anywhere. \<open>countedKeys\<close>
  are these keys of the whole key space.
\<close>

definition countedIn :: "string list \<Rightarrow> string list" where
  "countedIn ks =
     filter (\<lambda>k. startsWith k ''player:'' \<and> \<not> includes_js k '':last_submission'') ks"

definition countedKeys :: "store \<Rightarrow> string list" where
  "countedKeys st = countedIn (allKeys st)"

text \<open>The scan when no game mode is known: it returns false at the first player key.\<close>

function scanAnyPlayer :: "store \<Rightarrow> nat option \<Rightarrow> nat \<Rightarrow> nat \<Rightarrow> rebuildError + bool" where
  "scanAnyPlayer st c cursor playerCount =
     (case tick c of
        Inl e \<Rightarrow> Inl e
      | Inr c' \<Rightarrow>
          (let playerCount' = playerCount + length (playerKeysOf (snd (scanPlayers st cursor)))
           in if playerCount' > 0 then Inr False
              else if fst (scanPlayers st cursor) \<noteq> 0
              then scanAnyPlayer st c' (fst (scanPlayers st cursor)) playerCount'
              else Inr (playerCount' = 0)))"
  by pat_completeness auto
termination
  by (relation "measure (\<lambda>(st, c, cursor, playerCount). length (allKeys st) - cursor)")
     (auto simp: scanPlayers_def split: if_splits)

declare scanAnyPlayer.simps [simp del]

text \<open>The scan after the leaderboards: it counts the player keys of the whole key space.\<close>

function countPlayers :: "store \<Rightarrow> nat option \<Rightarrow> nat \<Rightarrow> nat \<Rightarrow> rebuildError + nat" where
  "countPlayers st c cursor playerCount =
     (case tick c of
        Inl e \<Rightarrow> Inl e
      | Inr c' \<Rightarrow>
          (let playerCount' = playerCount + length (playerKeysOf (snd (scanPlayers st cursor)))
           in if fst (scanPlayers st cursor) \<noteq> 0
              then countPlayers st c' (fst (scanPlayers st cursor)) playerCount'
              else Inr playerCount'))"
  by pat_completeness auto
termination
  by (relation "measure (\<lambda>(st, c, cursor, playerCount). length (allKeys st) - cursor)")
     (auto simp: scanPlayers_def split: if_splits)

declare countPlayers.simps [simp del]

text \<open>The loop over the game modes: true at the first global leaderboard with a member.\<close>

fun anyLeaderboard :: "store \<Rightarrow> nat option \<Rightarrow> int list \<Rightarrow> rebuildError + bool \<times> nat option" where
  "anyLeaderboard st c [] = Inr (False, c)"
| "anyLeaderboard st c (i # ids) =
     (case tick c of
        Inl e \<Rightarrow> Inl e
      | Inr c' \<Rightarrow>
          if zcard st (globalKey (JNum i)) > 0 then Inr (True, c')
          else anyLeaderboard st c' ids)"

text \<open>The body of the \<open>try\<close>, and \<open>needsRebuild\<close> with its \<open>catch\<close>.\<close>

definition needsRebuild_body :: "store \<Rightarrow> nat option \<Rightarrow> rebuildError + bool" where
  "needsRebuild_body st c =
     (case getAllGameModes st c of
        Inl e \<Rightarrow> Inl e
      | Inr (gameModes, c1) \<Rightarrow>
          if length gameModes = 0 then scanAnyPlayer st c1 0 0
          else
            (case anyLeaderboard st c1 gameModes of
               Inl e \<Rightarrow> Inl e
             | Inr (found, c2) \<Rightarrow>
                 if found then Inr False
                 else
                   (case countPlayers st c2 0 0 of
                      Inl e \<Rightarrow> Inl e
                    | Inr playerCount \<Rightarrow> Inr (playerCount = 0))))"

definition needsRebuild :: "store \<Rightarrow> nat option \<Rightarrow> bool" where
  "needsRebuild st c = (case needsRebuild_body st c of Inl e \<Rightarrow> True | Inr b \<Rightarrow> b)"

section \<open>Statements for comparison\<close>

text \<open>
  The events the parsing loop turns away, spelt out value by value: a \<open>playerId\<close> that is
  missing, \<open>null\<close>, \<open>false\<close>, zero or the empty string, or a \<open>score\<close> that is missing,
  \<open>null\<close> or the empty string.
\<close>

definition rejected :: "event \<Rightarrow> bool" where
  "rejected ev =
     (playerId ev \<in> {JUndefined, JNull, JBool False, JNum 0, JStr []}
      \<or> score ev \<in> {JUndefined, JNull, JStr []})"

text \<open>
  The key layout of the store: \<open>player:{playerId}\<close> holds the record of a player,
  \<open>player:{playerId}:last_submission\<close> the time stamp that the rate limiter keeps for
  that player. The player records of a store are its keys of the first form that are
  not of the second. And the ids of the known game modes.
\<close>

definition endsWith :: "string \<Rightarrow> string \<Rightarrow> bool" where
  "endsWith s suffix = startsWith (rev s) (rev suffix)"

definition rateLimiterKey :: "string \<Rightarrow> bool" where
  "rateLimiterKey k = (startsWith k ''player:'' \<and> endsWith (drop 7 k) '':last_submission'')"

definition playerRecords :: "store \<Rightarrow> string list" where
  "playerRecords st = filter (\<lambda>k. startsWith k ''player:'' \<and> \<not> rateLimiterKey k) (allKeys st)"

definition knownModeIds :: "store \<Rightarrow> int list" where
  "knownModeIds st = concat (map (\<lambda>(field, v). case v of None \<Rightarrow> [] | Some i \<Rightarrow> [i]) (game_modes st))"

text \<open>The notification that comparing an old rank with the new rank data yields, if any.\<close>

definition rankNote :: "event \<Rightarrow> nat option \<Rightarrow> (nat \<times> int) option \<Rightarrow> notification list" where
  "rankNote ev old new =
     (case new of
        None \<Rightarrow> []
      | Some (rank, sc) \<Rightarrow>
          if Some rank \<noteq> old
          then [\<lparr>n_gameMode = gameMode ev, n_playerId = playerId ev,
                 newRank = rank, oldRank = old, n_score = sc\<rparr>]
          else [])"

text \<open>
  The notifications of a group as the specification words them: the events are applied
  in order, and each is compared on the rank its player has in the store immediately
  before the application and the rank it has immediately after.
\<close>

fun spec_group :: "clock \<Rightarrow> event list \<Rightarrow> store \<Rightarrow> notification list" where
  "spec_group clk [] st = []"
| "spec_group clk (ev # evs) st =
     rankNote ev (map_option fst (getPlayerRank st (gameMode ev) (playerId ev)))
       (getPlayerRank (applyEvent clk ev st) (gameMode ev) (playerId ev))
     @ spec_group clk evs (applyEvent clk ev st)"

text \<open>
  A \<open>ScoreEvent\<close> of the data model: \<open>playerId\<close> a string, \<open>gameMode\<close> and \<open>score\<close>
  numbers.
\<close>

fun isNum :: "jsval \<Rightarrow> bool" where
  "isNum (JNum n) = True"
| "isNum v = False"

fun isStr :: "jsval \<Rightarrow> bool" where
  "isStr (JStr s) = True"
| "isStr v = False"

definition typedEvent :: "event \<Rightarrow> bool" where
  "typedEvent ev = (isStr (playerId ev) \<and> isNum (gameMode ev) \<and> isNum (score ev))"

definition scoreOf :: "event \<Rightarrow> int" where
  "scoreOf ev = (case score ev of JNum n \<Rightarrow> n | _ \<Rightarrow> 0)"

text \<open>The score an event brings to player \<open>p\<close> in game mode \<open>g\<close>.\<close>

definition creditOf :: "int \<Rightarrow> string \<Rightarrow> event \<Rightarrow> int" where
  "creditOf g p ev = (if playerId ev = JStr p \<and> gameMode ev = JNum g then scoreOf ev else 0)"

text \<open>The events that the batches of a run yield, in order.\<close>

definition acceptedEvents :: "(clock \<times> message list) list \<Rightarrow> event list" where
  "acceptedEvents batches = concat (map (\<lambda>(clk, messages). parseMessages messages []) batches)"

text \<open>The score of a member, 0 when it is absent, and what one command adds to it.\<close>

definition zval :: "store \<Rightarrow> string \<Rightarrow> string \<Rightarrow> int" where
  "zval st k m = (case zscore st k m of None \<Rightarrow> 0 | Some s \<Rightarrow> s)"

fun zdelta :: "string \<Rightarrow> string \<Rightarrow> cmd \<Rightarrow> int" where
  "zdelta k m (ZIncrBy k' arg m') =
     (if k' = k \<and> m' = m then (case redisNum arg of None \<Rightarrow> 0 | Some n \<Rightarrow> n) else 0)"
| "zdelta k m c = 0"

section \<open>Sample inputs\<close>

definition emptyStore :: store where
  "emptyStore = \<lparr>hashes = [], zsets = [], strs = [], ttl = [], game_modes = []\<rparr>"

text \<open>Noon of Saturday 7 January 2023, a year whose 1 January is a Sunday.\<close>

definition saturdayNoon :: clock where
  "saturdayNoon = \<lparr>nowIso = ''2023-01-07T12:00:00.000Z'', fullYear = 2023, jan1Day = 0,
                    msSinceJan1 = 561600000\<rparr>"

definition freshEngine :: "bool \<Rightarrow> engine" where
  "freshEngine rebuilding =
     \<lparr>redis = emptyStore, isRebuilding = rebuilding, consecutiveEmptyBatches = 0,
      published = [], purged = []\<rparr>"

definition scoreEvent :: "string \<Rightarrow> int \<Rightarrow> int \<Rightarrow> event" where
  "scoreEvent p gm sc = \<lparr>playerId = JStr p, username = JStr ''alice'', gameMode = JNum gm, score = JNum sc\<rparr>"

text \<open>A store in which \<open>p1\<close> leads \<open>p2\<close> in game mode 1, and a tailing engine on it.\<close>

definition rankedStore :: store where
  "rankedStore = emptyStore\<lparr>zsets := [(''leaderboard:1:global'', [(''p1'', 10), (''p2'', 5)])]\<rparr>"

definition rankedEngine :: engine where
  "rankedEngine = (freshEngine False)\<lparr>redis := rankedStore\<rparr>"

text \<open>A batch in which first \<open>p2\<close> scores twice and overtakes \<open>p1\<close>, then \<open>p1\<close> scores twice.\<close>

definition overtakeBatch :: "message list" where
  "overtakeBatch =
     [Decoded (scoreEvent ''p2'' 1 10), Decoded (scoreEvent ''p2'' 1 10),
      Decoded (scoreEvent ''p1'' 1 1), Decoded (scoreEvent ''p1'' 1 1)]"

text \<open>
  A store with one player record, the rate limiter's key of that player, and three
  seeded game modes whose leaderboards are empty.
\<close>

definition playerOnlyStore :: store where
  "playerOnlyStore =
     emptyStore\<lparr>hashes := [(''player:p1'', [(''username'', HStr ''alice'')])],
                 strs := [(''player:p1:last_submission'', ''2023-01-07T12:00:00.000Z'')],
                 game_modes := [(''1'', Some 1), (''2'', Some 2), (''3'', Some 3)]\<rparr>"

text \<open>
  The same store with a player whose id is \<open>team:last_submissions\<close> in place of \<open>p1\<close>.
\<close>

definition teamStore :: store where
  "teamStore =
     emptyStore\<lparr>hashes := [(''player:team:last_submissions'', [(''username'', HStr ''alice'')])],
                 strs := [(''player:team:last_submissions:last_submission'', ''2023-01-07T12:00:00.000Z'')],
                 game_modes := [(''1'', Some 1), (''2'', Some 2), (''3'', Some 3)]\<rparr>"

section \<open>The week identifier\<close>

text \<open>The ceiling of a quotient of natural numbers, by integer division.\<close>

lemma ceil_nat_div:
  assumes "0 < b"
  shows "\<lceil>(of_nat a :: rat) / of_nat b\<rceil> = int ((a + b - 1) div b)"
proof (rule ceiling_unique)
  define q where "q = (a + b - 1) div b"
  have m: "a + b - 1 = q * b + (a + b - 1) mod b" by (simp add: q_def)
  have r: "(a + b - 1) mod b < b" using assms by simp
  have lo: "q * b < a + b" using m assms by linarith
  have hi: "a \<le> q * b" using m r assms by linarith
  have "int q * int b - int b < int a" using lo by (metis of_nat_add of_nat_less_iff of_nat_mult diff_less_eq)
  then have "(rat_of_int (int q) - 1) * rat_of_nat b < rat_of_nat a"
    by (metis (mono_tags, opaque_lifting) left_diff_distrib mult.left_neutral of_int_diff of_int_less_iff of_int_mult of_int_of_nat_eq)
  then show "rat_of_int (int ((a + b - 1) div b)) - 1 < rat_of_nat a / rat_of_nat b"
    using assms by (simp add: q_def pos_less_divide_eq)
  have "rat_of_nat a \<le> rat_of_nat (q * b)" using hi by (simp only: of_nat_le_iff)
  then show "rat_of_nat a / rat_of_nat b \<le> rat_of_int (int ((a + b - 1) div b))"
    using assms by (simp add: q_def pos_divide_le_eq)
qed

lemma weekNumber_nat:
  "weekNumber clk =
     int ((msSinceJan1 clk + (jan1Day clk + 1) * 86400000 + 604800000 - 1) div 604800000)"
proof -
  have "(pastDaysOfYear clk + of_nat (jan1Day clk) + 1) / 7
      = rat_of_nat (msSinceJan1 clk + (jan1Day clk + 1) * 86400000) / rat_of_nat 604800000"
    by (simp add: pastDaysOfYear_def field_simps)
  then have "weekNumber clk
      = \<lceil>rat_of_nat (msSinceJan1 clk + (jan1Day clk + 1) * 86400000) / rat_of_nat 604800000\<rceil>"
    by (simp only: weekNumber_def)
  also have "\<dots> = int ((msSinceJan1 clk + (jan1Day clk + 1) * 86400000 + 604800000 - 1) div 604800000)"
    by (rule ceil_nat_div) simp
  finally show ?thesis .
qed



declare weekNumber_nat [code]




section \<open>Resetting the consumer group\<close>

text \<open>
  C9, as amended. \<open>resetConsumerOffsetToEarliest\<close> returns true exactly when the admin
  connect, the admin disconnect and the reconnect of the consumer all succeed, whatever
  the consumer disconnect and the group delete do. So deleting a group that does not
  exist is a success, a failing admin disconnect gives false, and a group delete that
  fails for any other reason is logged and does not change the result.
\<close>

theorem resetConsumerOffsetToEarliest_result:
  "fst (resetConsumerOffsetToEarliest b)
     = (adminConnect b = Resolves \<and> adminDisconnect b = Resolves \<and> consumerConnect b = Resolves)"
  by (simp add: resetConsumerOffsetToEarliest_def resetFailed_def Let_def split: outcome.splits)

text \<open>
  C9 as stated fails: a group delete rejected with a message other than "does not exist"
  is logged, and the function still returns true.
\<close>

theorem resetConsumerOffsetToEarliest_counterexample:
  "\<not> groupMissing (Some ''Request timed out'')
   \<and> resetConsumerOffsetToEarliest
        \<lparr>adminConnect = Resolves, consumerDisconnect = Resolves,
         deleteGroups = Rejects (Some ''Request timed out''),
         adminDisconnect = Resolves, consumerConnect = Resolves\<rparr>
       = (True, [LogResetting, LogDisconnected, LogCouldNotDelete, LogReconnected])"
  by (simp add: resetConsumerOffsetToEarliest_def groupMissing_def)

section \<open>Reading a string as a number\<close>

lemmas number_eval = StringToNumber_def trim_def is_space_def NonDecimalIntegerLiteral_def
  StrDecimalLiteral_def StrUnsignedDecimalLiteral_def is_digit_def digit_val_def mantissa_def
  ExponentPart_def DecimalDigits_def scale10_def safeInteger_def radix_val_def Let_def

lemma StringToNumber_integers:
  "StringToNumber ''12'' = Num 12"
  "StringToNumber '' -12 '' = Num (- 12)"
  "StringToNumber ''+12'' = Num 12"
  "StringToNumber [] = Num 0"
  "StringToNumber ''1e3'' = Num 1000"
  "StringToNumber ''5.'' = Num 5"
  "StringToNumber ''1.50e1'' = Num 15"
  "StringToNumber ''150e-1'' = Num 15"
  "StringToNumber ''0x10'' = Num 16"
  "StringToNumber ''0o17'' = Num 15"
  "StringToNumber ''0b101'' = Num 5"
  "StringToNumber ''-0'' = Num 0"
  "StringToNumber ''9007199254740991'' = Num 9007199254740991"
  by (simp_all add: number_eval)

lemma StringToNumber_others:
  "StringToNumber ''1.5'' = OtherNumber"
  "StringToNumber ''.5'' = OtherNumber"
  "StringToNumber ''15e-2'' = OtherNumber"
  "StringToNumber ''Infinity'' = OtherNumber"
  "StringToNumber ''-Infinity'' = OtherNumber"
  "StringToNumber ''9007199254740992'' = OtherNumber"
  "StringToNumber ''1e400'' = OtherNumber"
  by (simp_all add: number_eval)

lemma StringToNumber_NaN:
  "StringToNumber ''abc'' = NaN"
  "StringToNumber ''12abc'' = NaN"
  "StringToNumber ''1 2'' = NaN"
  "StringToNumber ''+-7'' = NaN"
  "StringToNumber ''.'' = NaN"
  "StringToNumber ''1e'' = NaN"
  "StringToNumber ''e5'' = NaN"
  "StringToNumber ''0x'' = NaN"
  "StringToNumber ''-0x10'' = NaN"
  "StringToNumber ''1_000'' = NaN"
  "StringToNumber ''infinity'' = NaN"
  by (simp_all add: number_eval)

section \<open>Validation\<close>

lemma falsy_cases: "falsy v = (v \<in> {JUndefined, JNull, JBool False, JNum 0, JStr []})"
  by (cases v) auto

lemma parseMessages_acc:
  "parseMessages ms events = events @ [ev. Decoded ev \<leftarrow> ms, \<not> rejected ev]"
  by (induction ms events rule: parseMessages.induct) (auto simp: rejected_def falsy_cases)

text \<open>
  C6, as amended. The events a batch yields are exactly the decoded messages, in arrival
  order, whose \<open>playerId\<close> is none of missing, \<open>null\<close>, \<open>false\<close>, 0 and the empty string
  and whose \<open>score\<close> is none of missing, \<open>null\<close> and the empty string; a message that
  does not parse is skipped like a rejected one. Whether the score is a number is not
  looked at.
\<close>

theorem parseMessages_filter:
  "parseMessages ms [] = [ev. Decoded ev \<leftarrow> ms, \<not> rejected ev]"
  by (simp add: parseMessages_acc)

text \<open>
  C6 as stated fails: the score \<open>"abc"\<close> is not a number, and the event is accepted.
\<close>

theorem parseMessages_counterexample:
  "Number_js (JStr ''abc'') = NaN
   \<and> parseMessages
        [Decoded \<lparr>playerId = JStr ''p1'', username = JStr ''alice'', gameMode = JNum 1,
                  score = JStr ''abc''\<rparr>] []
       = [\<lparr>playerId = JStr ''p1'', username = JStr ''alice'', gameMode = JNum 1,
           score = JStr ''abc''\<rparr>]"
  by (simp add: number_eval)

section \<open>What each store command changes\<close>

lemma hset_fields [simp]:
  "zsets (redis_hset k fvs st) = zsets st"
  "strs (redis_hset k fvs st) = strs st"
  "ttl (redis_hset k fvs st) = ttl st"
  "game_modes (redis_hset k fvs st) = game_modes st"
  by (simp_all add: redis_hset_def)

lemma hincrby_fields [simp]:
  "zsets (redis_hincrby k f arg st) = zsets st"
  "strs (redis_hincrby k f arg st) = strs st"
  "ttl (redis_hincrby k f arg st) = ttl st"
  "game_modes (redis_hincrby k f arg st) = game_modes st"
  by (simp_all add: redis_hincrby_def split: option.splits hval.splits)

lemma zincrby_fields [simp]:
  "hashes (redis_zincrby k arg m st) = hashes st"
  "strs (redis_zincrby k arg m st) = strs st"
  "ttl (redis_zincrby k arg m st) = ttl st"
  "game_modes (redis_zincrby k arg m st) = game_modes st"
  by (simp_all add: redis_zincrby_def Let_def split: option.splits)

lemma expire_fields [simp]:
  "hashes (redis_expire k secs st) = hashes st"
  "zsets (redis_expire k secs st) = zsets st"
  "strs (redis_expire k secs st) = strs st"
  "game_modes (redis_expire k secs st) = game_modes st"
  by (simp_all add: redis_expire_def)

lemma zsetOf_other [simp]:
  "zsetOf (redis_hset k fvs st) = zsetOf st"
  "zsetOf (redis_hincrby k f arg st) = zsetOf st"
  "zsetOf (redis_expire k secs st) = zsetOf st"
  by (simp_all add: zsetOf_def fun_eq_iff)

lemma zscore_other [simp]:
  "zscore (redis_hset k fvs st) = zscore st"
  "zscore (redis_hincrby k f arg st) = zscore st"
  "zscore (redis_expire k secs st) = zscore st"
  by (simp_all add: zscore_def fun_eq_iff)

lemma hashOf_other [simp]:
  "hashOf (redis_zincrby k arg m st) = hashOf st"
  "hashOf (redis_expire k secs st) = hashOf st"
  by (simp_all add: hashOf_def fun_eq_iff)

lemma hget_other [simp]:
  "hget (redis_zincrby k arg m st) = hget st"
  "hget (redis_expire k secs st) = hget st"
  by (simp_all add: hget_def fun_eq_iff)

lemma zsetOf_zincrby:
  "zsetOf (redis_zincrby k arg m st) k' =
     (case redisNum arg of
        None \<Rightarrow> zsetOf st k'
      | Some n \<Rightarrow>
          if k' = k
          then AList.update m ((case zscore st k m of None \<Rightarrow> 0 | Some s \<Rightarrow> s) + n) (zsetOf st k)
          else zsetOf st k')"
  by (simp add: redis_zincrby_def zsetOf_def Let_def update_conv' split: option.splits)

lemma zscore_zincrby:
  "zscore (redis_zincrby k arg m st) k' m' =
     (case redisNum arg of
        None \<Rightarrow> zscore st k' m'
      | Some n \<Rightarrow>
          if k' = k \<and> m' = m
          then Some ((case zscore st k m of None \<Rightarrow> 0 | Some s \<Rightarrow> s) + n)
          else zscore st k' m')"
  by (simp add: zscore_def zsetOf_zincrby update_conv' split: option.splits)



section \<open>The weekly step\<close>



lemma zscore_emptyStore [simp]: "zscore emptyStore k m = None"
  by (simp add: zscore_def zsetOf_def emptyStore_def)

lemma weekId_saturdayNoon: "getWeekIdentifier saturdayNoon = ''2023-W02''"
  by (simp add: saturdayNoon_def getWeekIdentifier_def weekNumber_nat dec_int_def dec_nat.simps
      digit_char_def padStart_def)



section \<open>No notification during a rebuild\<close>

lemma fold_invariant:
  assumes "P a" and "\<And>x b. P b \<Longrightarrow> P (f x b)"
  shows "P (fold f xs a)"
  using assms(1) by (induction xs arbitrary: a) (auto intro: assms(2))

lemma publishRankChange_fields [simp]:
  "redis (publishRankChange ev prev new eng) = redis eng"
  "isRebuilding (publishRankChange ev prev new eng) = isRebuilding eng"
  "consecutiveEmptyBatches (publishRankChange ev prev new eng) = consecutiveEmptyBatches eng"
  by (simp_all add: publishRankChange_def Let_def split: option.splits prod.splits)

lemma processGroupEvent_quiet:
  assumes "isRebuilding (fst acc) \<and> published (fst acc) = pub"
  shows "isRebuilding (fst (processGroupEvent clk ir key ev acc))
         \<and> published (fst (processGroupEvent clk ir key ev acc)) = pub"
  using assms by (cases acc) (simp add: processGroupEvent_def Let_def)

lemma processGroup_quiet:
  assumes "isRebuilding (fst acc) \<and> published (fst acc) = pub"
  shows "isRebuilding (fst (processGroup clk ir grp acc))
         \<and> published (fst (processGroup clk ir grp acc)) = pub"
proof (cases grp)
  case (Pair key evs)
  have "isRebuilding (fst (fold (processGroupEvent clk ir key) evs acc))
        \<and> published (fst (fold (processGroupEvent clk ir key) evs acc)) = pub"
    using assms
    by (rule fold_invariant [where P = "\<lambda>a. isRebuilding (fst a) \<and> published (fst a) = pub"])
       (rule processGroupEvent_quiet)
  then show ?thesis
    using assms by (simp add: Pair processGroup_def)
qed

lemma processStandalone_quiet:
  assumes "isRebuilding eng"
  shows "published (processStandalone clk ir evs eng) = published eng"
  using assms by (simp add: processStandalone_def Let_def split: prod.splits)

text \<open>
  C4. A batch handled while \<open>isRebuilding\<close> is set publishes nothing to
  \<open>leaderboard-updated\<close>, whatever mix of groups and standalone events it holds: what
  has been published is the same before and after the handler.
\<close>

theorem eachBatch_rebuilding_publishes_nothing:
  assumes "isRebuilding eng"
  shows "published (eachBatch clk messages eng) = published eng"
proof -
  let ?eng0 = "eng\<lparr>consecutiveEmptyBatches := 0\<rparr>"
  let ?evs = "parseMessages messages []"
  let ?ir = "snapshotRanks (redis ?eng0) ?evs []"
  let ?acc = "fold (processGroup clk ?ir) (groupEvents ?evs) (?eng0, [])"
  have "isRebuilding (fst (?eng0, [])) \<and> published (fst (?eng0, [])) = published eng"
    using assms by simp
  then have inv: "isRebuilding (fst ?acc) \<and> published (fst ?acc) = published eng"
    by (rule fold_invariant [where P = "\<lambda>a. isRebuilding (fst a) \<and> published (fst a) = published eng"])
       (rule processGroup_quiet)
  show ?thesis
  proof (cases "?evs = []")
    case True
    then show ?thesis using assms by (simp add: eachBatch_def Let_def)
  next
    case False
    then show ?thesis
      using assms inv
      by (simp add: eachBatch_def Let_def case_prod_beta processStandalone_quiet)
  qed
qed

theorem eachBatch_rebuilding_publishes_nothing_witness:
  "isRebuilding (freshEngine True)
   \<and> published (eachBatch saturdayNoon
        [Decoded (scoreEvent ''p1'' 1 5), Decoded (scoreEvent ''p1'' 1 5), Decoded (scoreEvent ''p2'' 1 7)]
        (freshEngine True)) = []"
  using eachBatch_rebuilding_publishes_nothing [of "freshEngine True" saturdayNoon
        "[Decoded (scoreEvent ''p1'' 1 5), Decoded (scoreEvent ''p1'' 1 5), Decoded (scoreEvent ''p2'' 1 7)]"]
  by (simp add: freshEngine_def)

section \<open>Hash commands\<close>






section \<open>Keys of one game mode\<close>

lemma keys_distinct [simp]:
  "globalKey gm \<noteq> dailyKey gm t" "dailyKey gm t \<noteq> globalKey gm"
  "globalKey gm \<noteq> weeklyKey gm w" "weeklyKey gm w \<noteq> globalKey gm"
  "dailyKey gm t \<noteq> weeklyKey gm w" "weeklyKey gm w \<noteq> dailyKey gm t"
  by (simp_all add: globalKey_def dailyKey_def weeklyKey_def)


section \<open>A batch of one event\<close>

lemma redis_publishStandalone [simp]:
  "redis (publishStandalone ir ev eng) = redis eng"
  by (simp add: publishStandalone_def)

lemma redis_fold_publishStandalone [simp]:
  "redis (fold (publishStandalone ir) evs eng) = redis eng"
  by (induction evs arbitrary: eng) simp_all





section \<open>Two standalone events of one new player\<close>

lemmas eval_defs =
  eachBatch_def Let_def parseMessages.simps scoreEvent_def freshEngine_def emptyStore_def
  snapshotRanks.simps groupEvents_def pushGroup_def standaloneOf_def eventKey_def
  processGroup_def processGroupEvent_def applyEvent_def processStandalone_def queueStandalone_def
  publishStandalone_def publishRankChange_def initialRankOf_def
  eventCmdsHead_def eventCmdsTail_def exec_def
  redis_exists_def allKeys_def redis_hset_def redis_hincrby_def redis_zincrby_def redis_expire_def
  hget_def hashOf_def zscore_def zsetOf_def zrevrank_def getPlayerRank_def getPlayerScore_def
  games_played_def total_score_def updateWeeklyLeaderboard_def
  playerKey_def globalKey_def dailyKey_def weeklyKey_def todayOf_def top100Paths_def
  weekId_saturdayNoon dec_int_def dec_nat.simps digit_char_def

text \<open>
  C2 fails on the code. On an empty store, one batch holds two accepted events of the
  new player \<open>p1\<close> under the game modes 1 and 2. Both are standalone; both find the
  player missing, because the shared pipeline has not run yet; both queue the command
  that creates the player with \<open>games_played = 0\<close>, and the second creation wipes the
  count of the first event. Two events are applied and \<open>games_played\<close> ends at 1.
\<close>

theorem games_played_two_standalone_events:
  "parseMessages [Decoded (scoreEvent ''p1'' 1 10), Decoded (scoreEvent ''p1'' 2 20)] []
     = [scoreEvent ''p1'' 1 10, scoreEvent ''p1'' 2 20]
   \<and> games_played (redis (eachBatch saturdayNoon
          [Decoded (scoreEvent ''p1'' 1 10), Decoded (scoreEvent ''p1'' 2 20)]
          (freshEngine False))) (JStr ''p1'') = 1
   \<and> total_score (redis (eachBatch saturdayNoon
          [Decoded (scoreEvent ''p1'' 1 10), Decoded (scoreEvent ''p1'' 2 20)]
          (freshEngine False))) (JStr ''p1'') = 20"
  by (simp add: eval_defs)

section \<open>Decimal rendering can be read back\<close>

lemma digit_val_digit_char: "d < 10 \<Longrightarrow> digit_val (digit_char d) = Some d"
proof -
  assume "d < 10"
  then have "d \<in> {0, 1, 2, 3, 4, 5, 6, 7, 8, 9}" by auto
  then show ?thesis
    by (auto simp: digit_val_def digit_char_def)
qed

lemma parse_digits_append:
  "parse_digits (xs @ ys) acc =
     (case parse_digits xs acc of None \<Rightarrow> None | Some v \<Rightarrow> parse_digits ys v)"
  by (induction xs arbitrary: acc) (auto split: option.splits)

lemma parse_digits_dec_nat: "parse_digits (dec_nat n) 0 = Some n"
proof (induction n rule: dec_nat.induct)
  case (1 n)
  show ?case
  proof (cases "n < 10")
    case True
    then show ?thesis
      by (subst dec_nat.simps) (simp add: digit_val_digit_char)
  next
    case False
    then show ?thesis
      using 1
      by (subst dec_nat.simps) (simp add: parse_digits_append digit_val_digit_char)
  qed
qed

lemma parse_digits_no_colon:
  "parse_digits s acc = Some v \<Longrightarrow> CHR '':'' \<notin> set s \<and> CHR ''-'' \<notin> set s"
  by (induction s arbitrary: acc) (auto simp: digit_val_def split: option.splits if_splits)

lemma dec_nat_chars: "CHR '':'' \<notin> set (dec_nat n)" "CHR ''-'' \<notin> set (dec_nat n)"
  using parse_digits_no_colon [OF parse_digits_dec_nat] by auto

lemma dec_nat_inj: "dec_nat a = dec_nat b \<Longrightarrow> a = b"
  by (metis option.inject parse_digits_dec_nat)

lemma dec_int_no_colon: "CHR '':'' \<notin> set (dec_int i)"
  by (simp add: dec_int_def dec_nat_chars)

lemma dec_int_inj: "dec_int a = dec_int b \<Longrightarrow> a = b"
proof -
  assume eq: "dec_int a = dec_int b"
  have neg: "CHR ''-'' # dec_nat x \<noteq> dec_nat y" for x y
    using dec_nat_chars(2) [of y] by (metis list.set_intros(1))
  show ?thesis
  proof (cases "a < 0"; cases "b < 0")
    assume "a < 0" "b < 0"
    then show ?thesis using eq dec_nat_inj [of "nat (- a)" "nat (- b)"] by (simp add: dec_int_def)
  next
    assume "a < 0" "\<not> b < 0"
    then show ?thesis using eq neg by (simp add: dec_int_def)
  next
    assume "\<not> a < 0" "b < 0"
    then show ?thesis using eq neg [of "nat (- b)" "nat a"] by (simp add: dec_int_def)
  next
    assume "\<not> a < 0" "\<not> b < 0"
    then show ?thesis using eq dec_nat_inj [of "nat a" "nat b"] by (simp add: dec_int_def)
  qed
qed

section \<open>Keys of different game modes\<close>

lemma split_at_colon:
  assumes "CHR '':'' \<notin> set a" and "CHR '':'' \<notin> set b"
    and "a @ CHR '':'' # x = b @ CHR '':'' # y"
  shows "a = b \<and> x = y"
  using assms
proof (induction a arbitrary: b)
  case Nil
  then show ?case by (cases b) auto
next
  case (Cons c a)
  then show ?case by (cases b) auto
qed

lemma globalKey_inj: "globalKey (JNum g) = globalKey (JNum g') \<longleftrightarrow> g = g'"
  using split_at_colon [OF dec_int_no_colon dec_int_no_colon, of g "''global''" g' "''global''"]
  by (auto simp: globalKey_def dest: dec_int_inj)

lemma dailyKey_not_global: "dailyKey (JNum g') t \<noteq> globalKey (JNum g)"
  using split_at_colon [OF dec_int_no_colon dec_int_no_colon, of g' "''daily:'' @ t" g "''global''"]
  by (auto simp: globalKey_def dailyKey_def)

lemma weeklyKey_not_global: "weeklyKey (JNum g') w \<noteq> globalKey (JNum g)"
  using split_at_colon [OF dec_int_no_colon dec_int_no_colon, of g' "''weekly:'' @ w" g "''global''"]
  by (auto simp: globalKey_def weeklyKey_def)

section \<open>The global score is the sum of the events\<close>

lemma zval_run_cmd: "zval (run_cmd c st) k m = zval st k m + zdelta k m c"
  by (cases c) (auto simp: zval_def zscore_zincrby split: option.splits)

lemma zval_exec: "zval (exec cs st) k m = zval st k m + sum_list (map (zdelta k m) cs)"
  unfolding exec_def
  by (induction cs arbitrary: st) (simp_all add: zval_run_cmd)

lemma typedEvent_cases:
  assumes "typedEvent ev"
  obtains s g' n where "playerId ev = JStr s" "gameMode ev = JNum g'" "score ev = JNum n"
proof -
  from assms obtain s where "playerId ev = JStr s"
    by (cases "playerId ev") (auto simp: typedEvent_def)
  moreover from assms obtain g' where "gameMode ev = JNum g'"
    by (cases "gameMode ev") (auto simp: typedEvent_def)
  moreover from assms obtain n where "score ev = JNum n"
    by (cases "score ev") (auto simp: typedEvent_def)
  ultimately show ?thesis using that by blast
qed

lemma zdelta_event:
  assumes "typedEvent ev"
  shows "sum_list (map (zdelta (globalKey (JNum g)) p) (eventCmdsHead t c ex ev))
         + sum_list (map (zdelta (globalKey (JNum g)) p) (eventCmdsTail ev))
         = creditOf g p ev"
proof -
  from assms obtain s g' n where
    f: "playerId ev = JStr s" "gameMode ev = JNum g'" "score ev = JNum n"
    by (rule typedEvent_cases)
  show ?thesis
    by (auto simp: eventCmdsHead_def eventCmdsTail_def f creditOf_def scoreOf_def
        globalKey_inj dailyKey_not_global)
qed

lemma zval_weekly:
  assumes "typedEvent ev"
  shows "zval (snd (updateWeeklyLeaderboard clk (gameMode ev) (playerId ev) (score ev) st))
           (globalKey (JNum g)) p = zval st (globalKey (JNum g)) p"
proof -
  from assms obtain s g' n where
    f: "playerId ev = JStr s" "gameMode ev = JNum g'" "score ev = JNum n"
    by (rule typedEvent_cases)
  show ?thesis
    by (simp add: updateWeeklyLeaderboard_def f Let_def zval_def zscore_zincrby weeklyKey_not_global [THEN not_sym])
qed

lemma fold_sum:
  assumes "\<And>x a. x \<in> set xs \<Longrightarrow> h (f x a) = h a + w x"
  shows "h (fold f xs a) = h a + sum_list (map w xs)"
  using assms by (induction xs arbitrary: a) (simp_all add: add.assoc)

lemma zval_processGroupEvent:
  assumes "typedEvent ev"
  shows "zval (redis (fst (processGroupEvent clk ir key ev acc))) (globalKey (JNum g)) p
         = zval (redis (fst acc)) (globalKey (JNum g)) p + creditOf g p ev"
  using assms
  by (cases acc) (simp add: processGroupEvent_def applyEvent_def Let_def zval_exec zdelta_event zval_weekly)

lemma zval_processGroup:
  assumes "\<forall>ev \<in> set (snd grp). typedEvent ev"
  shows "zval (redis (fst (processGroup clk ir grp acc))) (globalKey (JNum g)) p
         = zval (redis (fst acc)) (globalKey (JNum g)) p
           + (if length (snd grp) > 1 then sum_list (map (creditOf g p) (snd grp)) else 0)"
proof (cases grp)
  case (Pair key evs)
  have "zval (redis (fst (fold (processGroupEvent clk ir key) evs acc))) (globalKey (JNum g)) p
        = zval (redis (fst acc)) (globalKey (JNum g)) p + sum_list (map (creditOf g p) evs)"
    by (rule fold_sum [where h = "\<lambda>a. zval (redis (fst a)) (globalKey (JNum g)) p"])
       (use assms Pair in \<open>simp add: zval_processGroupEvent\<close>)
  then show ?thesis
    by (simp add: Pair processGroup_def)
qed

lemma zval_queueStandalone:
  assumes "typedEvent ev"
  shows "zval (fst (queueStandalone clk ev acc)) (globalKey (JNum g)) p
           + sum_list (map (zdelta (globalKey (JNum g)) p) (snd (queueStandalone clk ev acc)))
         = zval (fst acc) (globalKey (JNum g)) p
           + sum_list (map (zdelta (globalKey (JNum g)) p) (snd acc)) + creditOf g p ev"
  using assms zdelta_event [OF assms, of g p "todayOf clk" "nowIso clk"
        "redis_exists (fst acc) (playerKey (playerId ev))"]
  by (cases acc) (simp add: queueStandalone_def Let_def zval_weekly)

lemma zval_processStandalone:
  assumes "\<forall>ev \<in> set evs. typedEvent ev"
  shows "zval (redis (processStandalone clk ir evs eng)) (globalKey (JNum g)) p
         = zval (redis eng) (globalKey (JNum g)) p + sum_list (map (creditOf g p) evs)"
proof (cases "evs = []")
  case True
  then show ?thesis by (simp add: processStandalone_def)
next
  case False
  let ?acc = "fold (queueStandalone clk) evs (redis eng, [])"
  have "zval (fst ?acc) (globalKey (JNum g)) p
          + sum_list (map (zdelta (globalKey (JNum g)) p) (snd ?acc))
        = zval (redis eng) (globalKey (JNum g)) p + sum_list (map (creditOf g p) evs)"
    using fold_sum [where h = "\<lambda>a. zval (fst a) (globalKey (JNum g)) p
                                      + sum_list (map (zdelta (globalKey (JNum g)) p) (snd a))"
                      and f = "queueStandalone clk" and w = "creditOf g p" and xs = evs
                      and a = "(redis eng, [])"]
          assms
    by (simp add: zval_queueStandalone)
  then show ?thesis
    using False
    by (simp add: processStandalone_def Let_def case_prod_beta zval_exec)
qed


subsection \<open>Grouping keeps every event once\<close>

lemma mset_update_group:
  assumes "map_of groups k = Some evs"
  shows "mset (concat (map snd (AList.update k (evs @ [ev]) groups)))
         = add_mset ev (mset (concat (map snd groups)))"
  using assms by (induction groups) (auto split: if_splits)

lemma mset_pushGroup:
  "mset (concat (map snd (pushGroup ev groups))) = add_mset ev (mset (concat (map snd groups)))"
  by (simp add: pushGroup_def mset_update_group split: option.splits)

lemma mset_fold_pushGroup:
  "mset (concat (map snd (fold pushGroup evs groups))) = mset evs + mset (concat (map snd groups))"
  by (induction evs arbitrary: groups) (simp_all add: mset_pushGroup)

lemma mset_groupEvents: "mset (concat (map snd (groupEvents evs))) = mset evs"
  by (simp add: groupEvents_def mset_fold_pushGroup)

lemma sum_list_mset_cong:
  assumes "mset xs = mset ys"
  shows "sum_list (map w xs) = (sum_list (map w ys) :: int)"
  by (metis assms mset_map sum_mset_sum_list)

lemma set_standaloneOf: "set (standaloneOf groups) \<subseteq> set (concat (map snd groups))"
proof (induction groups)
  case Nil
  then show ?case by (simp add: standaloneOf_def)
next
  case (Cons grp groups)
  obtain key evs where grp: "grp = (key, evs)" by (cases grp)
  have "length evs = 1 \<Longrightarrow> hd evs \<in> set evs"
    by (cases evs) auto
  then show ?case
    using Cons by (auto simp: standaloneOf_def grp)
qed

lemma sum_hot_and_standalone:
  "sum_list (map (\<lambda>grp. if length (snd grp) > 1 then sum_list (map w (snd grp)) else 0) groups)
     + sum_list (map w (standaloneOf groups))
   = (sum_list (map w (concat (map snd groups))) :: int)"
proof (induction groups)
  case Nil
  then show ?case by (simp add: standaloneOf_def)
next
  case (Cons grp groups)
  obtain key evs where grp: "grp = (key, evs)" by (cases grp)
  have one: "length evs = 1 \<Longrightarrow> sum_list (map w evs) = w (hd evs)"
    by (cases evs) auto
  have none: "length evs = 0 \<Longrightarrow> sum_list (map w evs) = 0"
    by simp
  consider "length evs = 0" | "length evs = 1" | "length evs > 1"
    by linarith
  then show ?case
    using Cons.IH [unfolded standaloneOf_def] one none
    by cases (simp_all add: standaloneOf_def grp)
qed

subsection \<open>One batch, then any run of batches\<close>

lemma zval_fold_processGroup:
  assumes "\<forall>ev \<in> set (concat (map snd groups)). typedEvent ev"
  shows "zval (redis (fst (fold (processGroup clk ir) groups acc))) (globalKey (JNum g)) p
         = zval (redis (fst acc)) (globalKey (JNum g)) p
           + sum_list (map (\<lambda>grp. if length (snd grp) > 1
                                  then sum_list (map (creditOf g p) (snd grp)) else 0) groups)"
proof (rule fold_sum [where h = "\<lambda>a. zval (redis (fst a)) (globalKey (JNum g)) p"])
  fix grp a
  assume "grp \<in> set groups"
  then have "\<forall>ev \<in> set (snd grp). typedEvent ev"
    using assms by auto
  then show "zval (redis (fst (processGroup clk ir grp a))) (globalKey (JNum g)) p
             = zval (redis (fst a)) (globalKey (JNum g)) p
               + (if length (snd grp) > 1 then sum_list (map (creditOf g p) (snd grp)) else 0)"
    by (rule zval_processGroup)
qed

lemma zval_eachBatch:
  assumes "\<forall>ev \<in> set (parseMessages messages []). typedEvent ev"
  shows "zval (redis (eachBatch clk messages eng)) (globalKey (JNum g)) p
         = zval (redis eng) (globalKey (JNum g)) p
           + sum_list (map (creditOf g p) (parseMessages messages []))"
proof (cases "parseMessages messages [] = []")
  case True
  then show ?thesis by (simp add: eachBatch_def Let_def)
next
  case False
  let ?evs = "parseMessages messages []"
  let ?eng0 = "if isRebuilding eng then eng\<lparr>consecutiveEmptyBatches := 0\<rparr> else eng"
  let ?ir = "snapshotRanks (redis ?eng0) ?evs []"
  let ?groups = "groupEvents ?evs"
  let ?acc = "fold (processGroup clk ?ir) ?groups (?eng0, [])"
  have set_groups: "set (concat (map snd ?groups)) = set ?evs"
    using mset_groupEvents [of ?evs] by (rule mset_eq_setD)
  have typed_groups: "\<forall>ev \<in> set (concat (map snd ?groups)). typedEvent ev"
    using assms set_groups by simp
  have typed_alone: "\<forall>ev \<in> set (standaloneOf ?groups). typedEvent ev"
    using typed_groups set_standaloneOf [of ?groups] by blast
  have eq: "eachBatch clk messages eng = processStandalone clk ?ir (standaloneOf ?groups) (fst ?acc)"
    using False by (simp add: eachBatch_def Let_def case_prod_beta)
  have "zval (redis (eachBatch clk messages eng)) (globalKey (JNum g)) p
        = zval (redis (fst ?acc)) (globalKey (JNum g)) p
          + sum_list (map (creditOf g p) (standaloneOf ?groups))"
    unfolding eq using typed_alone by (rule zval_processStandalone)
  also have "zval (redis (fst ?acc)) (globalKey (JNum g)) p
        = zval (redis eng) (globalKey (JNum g)) p
          + sum_list (map (\<lambda>grp. if length (snd grp) > 1
                                 then sum_list (map (creditOf g p) (snd grp)) else 0) ?groups)"
    using zval_fold_processGroup [OF typed_groups, of clk ?ir "(?eng0, [])" g p] by simp
  finally show ?thesis
    using sum_hot_and_standalone [of "creditOf g p" ?groups]
          sum_list_mset_cong [OF mset_groupEvents, of "creditOf g p" ?evs]
    by simp
qed

lemma zval_runBatches:
  assumes "\<forall>ev \<in> set (acceptedEvents batches). typedEvent ev"
  shows "zval (redis (runBatches batches eng)) (globalKey (JNum g)) p
         = zval (redis eng) (globalKey (JNum g)) p
           + sum_list (map (creditOf g p) (acceptedEvents batches))"
  using assms
proof (induction batches arbitrary: eng)
  case Nil
  then show ?case by (simp add: runBatches_def acceptedEvents_def)
next
  case (Cons b batches)
  obtain clk messages where b: "b = (clk, messages)" by (cases b)
  have acc: "acceptedEvents (b # batches) = parseMessages messages [] @ acceptedEvents batches"
    by (simp add: acceptedEvents_def b)
  have run: "runBatches (b # batches) eng = runBatches batches (eachBatch clk messages eng)"
    by (simp add: runBatches_def b)
  have t1: "\<forall>ev \<in> set (parseMessages messages []). typedEvent ev"
    and t2: "\<forall>ev \<in> set (acceptedEvents batches). typedEvent ev"
    using Cons.prems by (simp_all add: acc)
  show ?case
    unfolding run acc
    by (simp add: Cons.IH [OF t2] zval_eachBatch [OF t1])
qed

text \<open>
  C1. Let the consumer handle any sequence of batches whose accepted events are
  \<open>ScoreEvent\<close>s of the data model (a string \<open>playerId\<close>, numeric \<open>gameMode\<close> and
  \<open>score\<close>). Then for every player \<open>p\<close> and game mode \<open>g\<close> the score of \<open>p\<close> in
  \<open>leaderboard:g:global\<close> afterwards is its score before (0 on a store that does not hold
  the member) plus the sum of the \<open>score\<close> fields of the accepted events with that
  \<open>playerId\<close> and \<open>gameMode\<close>, however the events fall into batches, groups and
  standalone events.
\<close>

theorem global_score_is_sum:
  assumes "\<forall>ev \<in> set (acceptedEvents batches). typedEvent ev"
  shows "getPlayerScore (redis (runBatches batches eng)) (JNum g) (JStr p)
         = getPlayerScore (redis eng) (JNum g) (JStr p)
           + (\<Sum>ev \<leftarrow> acceptedEvents batches.
                if playerId ev = JStr p \<and> gameMode ev = JNum g then scoreOf ev else 0)"
proof -
  have "creditOf g p = (\<lambda>ev. if playerId ev = JStr p \<and> gameMode ev = JNum g then scoreOf ev else 0)"
    by (simp add: fun_eq_iff creditOf_def)
  then show ?thesis
    using zval_runBatches [OF assms, of eng g p]
    by (simp add: getPlayerScore_def zval_def)
qed


lemma getPlayerScore_emptyStore [simp]: "getPlayerScore emptyStore gm p = 0"
  by (simp add: getPlayerScore_def)

theorem global_score_is_sum_witness:
  "acceptedEvents
        [(saturdayNoon, [Decoded (scoreEvent ''p1'' 1 5), Decoded (scoreEvent ''p1'' 1 5),
                         Decoded (scoreEvent ''p2'' 1 7)]),
         (saturdayNoon, [Unparsable, Decoded (scoreEvent ''p1'' 1 3)])]
     = [scoreEvent ''p1'' 1 5, scoreEvent ''p1'' 1 5, scoreEvent ''p2'' 1 7, scoreEvent ''p1'' 1 3]
   \<and> getPlayerScore (redis (runBatches
        [(saturdayNoon, [Decoded (scoreEvent ''p1'' 1 5), Decoded (scoreEvent ''p1'' 1 5),
                         Decoded (scoreEvent ''p2'' 1 7)]),
         (saturdayNoon, [Unparsable, Decoded (scoreEvent ''p1'' 1 3)])]
        (freshEngine False))) (JNum 1) (JStr ''p1'') = 13"
  using global_score_is_sum [of
        "[(saturdayNoon, [Decoded (scoreEvent ''p1'' 1 5), Decoded (scoreEvent ''p1'' 1 5),
                          Decoded (scoreEvent ''p2'' 1 7)]),
          (saturdayNoon, [Unparsable, Decoded (scoreEvent ''p1'' 1 3)])]"
        "freshEngine False" 1 "''p1''"]
  by (simp add: acceptedEvents_def scoreEvent_def typedEvent_def scoreOf_def freshEngine_def)

section \<open>Rank changes within a group\<close>

lemma published_publishRankChange:
  "published (publishRankChange ev prev new eng) = published eng @ rankNote ev prev new"
  by (simp add: publishRankChange_def rankNote_def Let_def split: option.splits prod.splits)

lemma split_at_last_colon:
  assumes "CHR '':'' \<notin> set x" and "CHR '':'' \<notin> set y"
    and "a @ CHR '':'' # x = b @ CHR '':'' # y"
  shows "a = b \<and> x = y"
proof -
  have "rev x @ CHR '':'' # rev a = rev y @ CHR '':'' # rev b"
    using arg_cong [OF assms(3), of rev] by simp
  then have "rev x = rev y \<and> rev a = rev b"
    using assms(1,2) by (intro split_at_colon) simp_all
  then show ?thesis by simp
qed

lemma eventKey_typed:
  assumes "typedEvent a" and "typedEvent b" and "eventKey a = eventKey b"
  shows "playerId a = playerId b \<and> gameMode a = gameMode b"
proof -
  from assms(1) obtain s g n where
    a: "playerId a = JStr s" "gameMode a = JNum g" "score a = JNum n"
    by (rule typedEvent_cases)
  from assms(2) obtain s' g' n' where
    b: "playerId b = JStr s'" "gameMode b = JNum g'" "score b = JNum n'"
    by (rule typedEvent_cases)
  have "s @ CHR '':'' # dec_int g = s' @ CHR '':'' # dec_int g'"
    using assms(3) by (simp add: eventKey_def a b)
  then have "s = s' \<and> dec_int g = dec_int g'"
    by (intro split_at_last_colon dec_int_no_colon)
  then show ?thesis
    by (auto simp: a b dest: dec_int_inj)
qed

lemma zscore_applyEvent:
  assumes "score ev = JNum n"
  shows "zscore (applyEvent clk ev st) (globalKey (gameMode ev)) (toString (playerId ev))
         = Some (zval (snd (updateWeeklyLeaderboard clk (gameMode ev) (playerId ev) (score ev) st))
                   (globalKey (gameMode ev)) (toString (playerId ev)) + n)"
  by (simp add: applyEvent_def Let_def exec_def eventCmdsHead_def eventCmdsTail_def assms
      zscore_zincrby zval_def)

lemma getPlayerRank_Some:
  "zscore st (globalKey gm) (toString p) = Some s \<Longrightarrow> \<exists>r. getPlayerRank st gm p = Some (r, s)"
  by (simp add: getPlayerRank_def zrevrank_def)

lemma rank_after_applyEvent:
  assumes "isNum (score ev)"
  shows "\<exists>r s. getPlayerRank (applyEvent clk ev st) (gameMode ev) (playerId ev) = Some (r, s)"
proof -
  from assms obtain n where "score ev = JNum n"
    by (cases "score ev") auto
  from zscore_applyEvent [OF this] show ?thesis
    by (blast dest: getPlayerRank_Some)
qed

lemma group_tail:
  assumes "\<not> isRebuilding eng"
    and "\<forall>ev \<in> set evs. playerId ev = p \<and> gameMode ev = gm \<and> isNum (score ev)"
    and "map_of cr key = Some r0"
    and "map_option fst (getPlayerRank (redis eng) gm p) = Some r0"
  shows "published (fst (fold (processGroupEvent clk ir key) evs (eng, cr)))
         = published eng @ spec_group clk evs (redis eng)"
  using assms
proof (induction evs arbitrary: eng cr r0)
  case Nil
  then show ?case by simp
next
  case (Cons ev evs)
  have ev: "playerId ev = p" "gameMode ev = gm" "isNum (score ev)"
    using Cons.prems(2) by simp_all
  obtain r s where new: "getPlayerRank (applyEvent clk ev (redis eng)) gm p = Some (r, s)"
    using rank_after_applyEvent [OF ev(3), of clk "redis eng"] ev(1,2) by auto
  let ?eng' = "publishRankChange ev (Some r0) (Some (r, s)) (eng\<lparr>redis := applyEvent clk ev (redis eng)\<rparr>)"
  have step: "processGroupEvent clk ir key ev (eng, cr) = (?eng', AList.update key r cr)"
    using Cons.prems(1,3) by (simp add: processGroupEvent_def Let_def ev new)
  have "published (fst (fold (processGroupEvent clk ir key) evs (?eng', AList.update key r cr)))
        = published ?eng' @ spec_group clk evs (redis ?eng')"
  proof (rule Cons.IH)
    show "\<not> isRebuilding ?eng'" using Cons.prems(1) by simp
    show "\<forall>ev \<in> set evs. playerId ev = p \<and> gameMode ev = gm \<and> isNum (score ev)"
      using Cons.prems(2) by simp
    show "map_of (AList.update key r cr) key = Some r" by (simp add: update_conv')
    show "map_option fst (getPlayerRank (redis ?eng') gm p) = Some r" by (simp add: new)
  qed
  then show ?case
    by (simp add: step published_publishRankChange ev new Cons.prems(4))
qed

lemma hot_group_rank_changes:
  assumes "\<not> isRebuilding eng"
    and "\<forall>e \<in> set (ev # rest). typedEvent e \<and> eventKey e = key"
    and "rest \<noteq> []"
    and "map_of cr key = None"
  shows "published (fst (processGroup clk ir (key, ev # rest) (eng, cr)))
         = published eng
           @ rankNote ev (initialRankOf ir key)
               (getPlayerRank (applyEvent clk ev (redis eng)) (gameMode ev) (playerId ev))
           @ spec_group clk rest (applyEvent clk ev (redis eng))"
proof -
  have typed: "typedEvent ev" and key: "eventKey ev = key"
    using assms(2) by simp_all
  have same: "\<forall>e \<in> set rest. playerId e = playerId ev \<and> gameMode e = gameMode ev \<and> isNum (score e)"
  proof
    fix e assume "e \<in> set rest"
    then have te: "typedEvent e" and ke: "eventKey e = eventKey ev"
      using assms(2) key by simp_all
    show "playerId e = playerId ev \<and> gameMode e = gameMode ev \<and> isNum (score e)"
      using eventKey_typed [OF te typed ke] te by (simp add: typedEvent_def)
  qed
  have num: "isNum (score ev)"
    using typed by (simp add: typedEvent_def)
  obtain r s where new:
    "getPlayerRank (applyEvent clk ev (redis eng)) (gameMode ev) (playerId ev) = Some (r, s)"
    using rank_after_applyEvent [OF num] by blast
  let ?eng' = "publishRankChange ev (initialRankOf ir key) (Some (r, s))
                 (eng\<lparr>redis := applyEvent clk ev (redis eng)\<rparr>)"
  have step: "processGroupEvent clk ir key ev (eng, cr) = (?eng', AList.update key r cr)"
    using assms(1,4) by (simp add: processGroupEvent_def Let_def new)
  have "published (fst (fold (processGroupEvent clk ir key) rest (?eng', AList.update key r cr)))
        = published ?eng' @ spec_group clk rest (redis ?eng')"
  proof (rule group_tail)
    show "\<not> isRebuilding ?eng'" using assms(1) by simp
    show "\<forall>e \<in> set rest. playerId e = playerId ev \<and> gameMode e = gameMode ev \<and> isNum (score e)"
      by (rule same)
    show "map_of (AList.update key r cr) key = Some r" by (simp add: update_conv')
    show "map_option fst (getPlayerRank (redis ?eng') (gameMode ev) (playerId ev)) = Some r"
      by (simp add: new)
  qed
  moreover have "length (ev # rest) > 1"
    using assms(3) by (cases rest) simp_all
  ultimately show ?thesis
    by (simp add: processGroup_def step published_publishRankChange new)
qed

subsection \<open>What a group leaves behind\<close>

lemma processGroupEvent_parts:
  "isRebuilding (fst (processGroupEvent clk ir key ev acc)) = isRebuilding (fst acc)"
  "redis (fst (processGroupEvent clk ir key ev acc)) = applyEvent clk ev (redis (fst acc))"
  "k \<noteq> key \<Longrightarrow> map_of (snd (processGroupEvent clk ir key ev acc)) k = map_of (snd acc) k"
  by (cases acc; simp add: processGroupEvent_def Let_def update_conv' split: option.splits)+

lemma fold_processGroupEvent_parts:
  "isRebuilding (fst (fold (processGroupEvent clk ir key) evs acc)) = isRebuilding (fst acc)"
  "redis (fst (fold (processGroupEvent clk ir key) evs acc)) = fold (applyEvent clk) evs (redis (fst acc))"
  "k \<noteq> key \<Longrightarrow> map_of (snd (fold (processGroupEvent clk ir key) evs acc)) k = map_of (snd acc) k"
  by (induction evs arbitrary: acc; simp add: processGroupEvent_parts)+

lemma processGroup_parts:
  "isRebuilding (fst (processGroup clk ir grp acc)) = isRebuilding (fst acc)"
  "redis (fst (processGroup clk ir grp acc))
     = (if length (snd grp) > 1 then fold (applyEvent clk) (snd grp) (redis (fst acc))
        else redis (fst acc))"
  "k \<noteq> fst grp \<Longrightarrow> map_of (snd (processGroup clk ir grp acc)) k = map_of (snd acc) k"
  by (cases grp; simp add: processGroup_def fold_processGroupEvent_parts)+

lemma fold_processGroup_parts:
  "isRebuilding (fst (fold (processGroup clk ir) groups acc)) = isRebuilding (fst acc)"
  "k \<notin> fst ` set groups \<Longrightarrow> map_of (snd (fold (processGroup clk ir) groups acc)) k = map_of (snd acc) k"
  by (induction groups arbitrary: acc; simp add: processGroup_parts)+

subsection \<open>The groups of a batch\<close>

lemma map_of_pushGroup:
  "map_of (pushGroup ev groups) k =
     (if k = eventKey ev
      then Some ((case map_of groups k of None \<Rightarrow> [] | Some evs \<Rightarrow> evs) @ [ev])
      else map_of groups k)"
  by (auto simp: pushGroup_def update_conv' map_add_def split: option.splits)

lemma distinct_pushGroup:
  "distinct (map fst groups) \<Longrightarrow> distinct (map fst (pushGroup ev groups))"
  by (auto simp: pushGroup_def distinct_update map_of_eq_None_iff split: option.splits)

lemma fold_pushGroup:
  "distinct (map fst groups) \<Longrightarrow> distinct (map fst (fold pushGroup evs groups))"
  "map_of (fold pushGroup evs groups) k =
     (let old = (case map_of groups k of None \<Rightarrow> [] | Some g \<Rightarrow> g);
          new = filter (\<lambda>e. eventKey e = k) evs
      in if new = [] then map_of groups k else Some (old @ new))"
  by (induction evs arbitrary: groups; simp add: distinct_pushGroup map_of_pushGroup Let_def)+

lemma groupEvents_member:
  assumes "(key, evs) \<in> set (groupEvents events)"
  shows "evs = filter (\<lambda>e. eventKey e = key) events"
proof -
  have "distinct (map fst (groupEvents events))"
    by (simp add: groupEvents_def fold_pushGroup(1))
  then have "map_of (groupEvents events) key = Some evs"
    using assms by simp
  then show ?thesis
    by (simp add: groupEvents_def fold_pushGroup(2) Let_def split: if_splits)
qed

lemma groupEvents_distinct: "distinct (map fst (groupEvents events))"
  by (simp add: groupEvents_def fold_pushGroup(1))

subsection \<open>The snapshot\<close>

lemma map_of_snapshotRanks:
  "map_of (snapshotRanks st evs ranks) k =
     (case map_of ranks k of
        Some r \<Rightarrow> Some r
      | None \<Rightarrow>
          (case filter (\<lambda>e. eventKey e = k) evs of
             [] \<Rightarrow> None
           | e # _ \<Rightarrow> Some (map_option fst (getPlayerRank st (gameMode e) (playerId e)))))"
proof (induction evs arbitrary: ranks)
  case Nil
  then show ?case by (simp split: option.splits)
next
  case (Cons ev evs)
  show ?case
  proof (cases "eventKey ev \<in> fst ` set ranks")
    case True
    then have "map_of ranks (eventKey ev) \<noteq> None"
      by (simp add: map_of_eq_None_iff)
    then show ?thesis
      using True by (auto simp: Cons.IH split: option.splits)
  next
    case False
    then have "map_of ranks (eventKey ev) = None"
      by (simp add: map_of_eq_None_iff)
    then show ?thesis
      using False by (auto simp: Cons.IH map_add_def split: option.splits list.splits)
  qed
qed

text \<open>
  C3, as amended. In tailing mode, take any batch of \<open>ScoreEvent\<close>s and any of its
  groups of two or more events, \<open>ev\<close> first and \<open>rest\<close> after it. The group holds all
  the events of its key in arrival order and they are applied in that order. The first
  event is compared on the snapshot, which is the rank the player had when the batch
  began, whatever groups handled earlier in the batch have done to that rank since, and
  on the rank immediately after its application. Every later event is compared on the
  rank the player has immediately before its application (the rank that was read after
  the previous one) and the rank immediately after. A notification is published exactly
  when the two ranks of the comparison differ, with these ranks as \<open>oldRank\<close> and
  \<open>newRank\<close>. The last conjunct places the group inside \<open>eachBatch\<close>.
\<close>

theorem hot_group_notifications:
  assumes "\<not> isRebuilding eng"
    and "\<forall>e \<in> set (parseMessages messages []). typedEvent e"
    and "groupEvents (parseMessages messages []) = pre @ (key, ev # rest) # post"
    and "rest \<noteq> []"
    and "ir = snapshotRanks (redis eng) (parseMessages messages []) []"
    and "acc = fold (processGroup clk ir) pre (eng, [])"
  shows "ev # rest = filter (\<lambda>e. eventKey e = key) (parseMessages messages [])
    \<and> initialRankOf ir key = map_option fst (getPlayerRank (redis eng) (gameMode ev) (playerId ev))
    \<and> published (fst (processGroup clk ir (key, ev # rest) acc))
        = published (fst acc)
          @ rankNote ev (initialRankOf ir key)
              (getPlayerRank (applyEvent clk ev (redis (fst acc))) (gameMode ev) (playerId ev))
          @ spec_group clk rest (applyEvent clk ev (redis (fst acc)))
    \<and> eachBatch clk messages eng
        = processStandalone clk ir (standaloneOf (groupEvents (parseMessages messages [])))
            (fst (fold (processGroup clk ir) post (processGroup clk ir (key, ev # rest) acc)))"
proof -
  let ?events = "parseMessages messages []"
  have mem: "(key, ev # rest) \<in> set (groupEvents ?events)"
    by (simp add: assms(3))
  have 1: "ev # rest = filter (\<lambda>e. eventKey e = key) ?events"
    using mem by (rule groupEvents_member)
  have 2: "initialRankOf ir key = map_option fst (getPlayerRank (redis eng) (gameMode ev) (playerId ev))"
    by (simp add: initialRankOf_def assms(5) map_of_snapshotRanks 1 [symmetric])
  have in_events: "set (ev # rest) \<subseteq> set ?events" and keys: "\<forall>e \<in> set (ev # rest). eventKey e = key"
    unfolding 1 by auto
  have typed: "\<forall>e \<in> set (ev # rest). typedEvent e \<and> eventKey e = key"
    using in_events keys assms(2) by blast
  have "distinct (map fst (pre @ (key, ev # rest) # post))"
    using groupEvents_distinct [of ?events] by (simp add: assms(3))
  then have fresh: "key \<notin> fst ` set pre"
    by auto
  have tail: "\<not> isRebuilding (fst acc)"
    by (simp add: assms(1,6) fold_processGroup_parts(1))
  have none: "map_of (snd acc) key = None"
    by (simp add: assms(6) fold_processGroup_parts(2) [OF fresh])
  have 3: "published (fst (processGroup clk ir (key, ev # rest) acc))
        = published (fst acc)
          @ rankNote ev (initialRankOf ir key)
              (getPlayerRank (applyEvent clk ev (redis (fst acc))) (gameMode ev) (playerId ev))
          @ spec_group clk rest (applyEvent clk ev (redis (fst acc)))"
    using hot_group_rank_changes [OF tail typed assms(4) none, of clk ir] by simp
  have ne: "?events \<noteq> []"
    using in_events by auto
  have 4: "eachBatch clk messages eng
        = processStandalone clk ir (standaloneOf (groupEvents ?events))
            (fst (fold (processGroup clk ir) post (processGroup clk ir (key, ev # rest) acc)))"
    using ne assms(1)
    by (simp add: eachBatch_def Let_def case_prod_beta assms(5) [symmetric])
       (simp add: assms(3) assms(6))
  show ?thesis
    using 1 2 3 4 by blast
qed

subsection \<open>Ranks from the sorted set alone\<close>

lemma zsetOf_weekly:
  "zsetOf (snd (updateWeeklyLeaderboard clk (JNum x) p sc st)) (globalKey (JNum g))
     = zsetOf st (globalKey (JNum g))"
  by (simp add: updateWeeklyLeaderboard_def Let_def zsetOf_zincrby
      weeklyKey_not_global [THEN not_sym] split: jsnumber.splits)

lemma zscore_weekly:
  "zscore (snd (updateWeeklyLeaderboard clk (JNum x) p sc st)) (globalKey (JNum g)) m
     = zscore st (globalKey (JNum g)) m"
  by (simp add: zscore_def zsetOf_weekly)

lemma zsetOf_applyEvent:
  assumes "typedEvent ev"
  shows "zsetOf (applyEvent clk ev st) (globalKey (JNum g)) =
     (if gameMode ev = JNum g
      then AList.update (toString (playerId ev))
             (zval st (globalKey (JNum g)) (toString (playerId ev)) + scoreOf ev)
             (zsetOf st (globalKey (JNum g)))
      else zsetOf st (globalKey (JNum g)))"
proof -
  from assms obtain s g' n where
    f: "playerId ev = JStr s" "gameMode ev = JNum g'" "score ev = JNum n"
    by (rule typedEvent_cases)
  show ?thesis
    by (simp add: applyEvent_def Let_def exec_def eventCmdsHead_def eventCmdsTail_def f
        zsetOf_zincrby dailyKey_not_global [THEN not_sym] globalKey_inj zsetOf_weekly
        zscore_weekly zval_def scoreOf_def)
qed

lemma getPlayerRank_zsetOf:
  "getPlayerRank st gm p =
     (case map_of (zsetOf st (globalKey gm)) (toString p) of
        None \<Rightarrow> None
      | Some s \<Rightarrow>
          Some (length (filter (\<lambda>(m', s'). s < s' \<or> (s' = s \<and> toString p < m'))
                          (zsetOf st (globalKey gm))) + 1, s))"
  by (simp add: getPlayerRank_def zrevrank_def zscore_def split: option.splits)

lemma zval_zsetOf: "zval st k m = (case map_of (zsetOf st k) m of None \<Rightarrow> 0 | Some s \<Rightarrow> s)"
  by (simp add: zval_def zscore_def)

lemma zsetOf_rankedStore: "zsetOf rankedStore (globalKey (JNum 1)) = [(''p1'', 10), (''p2'', 5)]"
  by (simp add: rankedStore_def emptyStore_def zsetOf_def globalKey_def dec_int_def dec_nat.simps
      digit_char_def)

lemmas rank_eval =
  getPlayerRank_zsetOf zsetOf_applyEvent zval_zsetOf zsetOf_rankedStore typedEvent_def
  scoreEvent_def scoreOf_def

lemma eventKey_scoreEvent: "eventKey (scoreEvent p g n) = p @ '':'' @ dec_int g"
  by (simp add: eventKey_def scoreEvent_def)

lemma typed_scoreEvent [simp]: "typedEvent (scoreEvent p g n)"
  by (simp add: typedEvent_def scoreEvent_def)

lemma dec_int_1: "dec_int 1 = ''1''"
  by (simp add: dec_int_def dec_nat.simps digit_char_def)

lemma parse_overtakeBatch:
  "parseMessages overtakeBatch []
     = [scoreEvent ''p2'' 1 10, scoreEvent ''p2'' 1 10, scoreEvent ''p1'' 1 1, scoreEvent ''p1'' 1 1]"
  by (simp add: overtakeBatch_def scoreEvent_def)

lemma group_overtakeBatch:
  "groupEvents (parseMessages overtakeBatch [])
     = [(''p2:1'', [scoreEvent ''p2'' 1 10, scoreEvent ''p2'' 1 10]),
        (''p1:1'', [scoreEvent ''p1'' 1 1, scoreEvent ''p1'' 1 1])]"
  by (simp add: parse_overtakeBatch groupEvents_def pushGroup_def eventKey_scoreEvent dec_int_1)

lemma snapshot_overtakeBatch:
  "initialRankOf (snapshotRanks rankedStore (parseMessages overtakeBatch []) []) ''p2:1'' = Some 2"
  "initialRankOf (snapshotRanks rankedStore (parseMessages overtakeBatch []) []) ''p1:1'' = Some 1"
  by (simp_all add: initialRankOf_def map_of_snapshotRanks parse_overtakeBatch eventKey_def
      dec_int_1 getPlayerRank_zsetOf zsetOf_rankedStore scoreEvent_def)

lemma rankedEngine_fields [simp]:
  "redis rankedEngine = rankedStore" "\<not> isRebuilding rankedEngine" "published rankedEngine = []"
  by (simp_all add: rankedEngine_def freshEngine_def)

text \<open>
  C3 as stated fails for the first event of a group that is not the first of its batch.
  \<open>p1\<close> leads \<open>p2\<close> before the batch. The two events of \<open>p2\<close> are applied first and
  move \<open>p2\<close> to rank 1, so that \<open>p1\<close> has rank 2 immediately before its first event and
  keeps it. Comparing the ranks immediately before and after each application, neither
  event of \<open>p1\<close> changes a rank; the code compares the first with the snapshot and
  publishes a change of \<open>p1\<close> from rank 1 to rank 2.
\<close>

theorem hot_group_counterexample:
  "published (eachBatch saturdayNoon overtakeBatch rankedEngine)
     = [\<lparr>n_gameMode = JNum 1, n_playerId = JStr ''p2'', newRank = 1, oldRank = Some 2, n_score = 15\<rparr>,
        \<lparr>n_gameMode = JNum 1, n_playerId = JStr ''p1'', newRank = 2, oldRank = Some 1, n_score = 11\<rparr>]
   \<and> spec_group saturdayNoon [scoreEvent ''p1'' 1 1, scoreEvent ''p1'' 1 1]
        (fold (applyEvent saturdayNoon) [scoreEvent ''p2'' 1 10, scoreEvent ''p2'' 1 10] rankedStore)
     = []"
proof -
  let ?clk = saturdayNoon
  let ?e2 = "scoreEvent ''p2'' 1 10"
  let ?e1 = "scoreEvent ''p1'' 1 1"
  let ?ir = "snapshotRanks rankedStore (parseMessages overtakeBatch []) []"
  let ?acc1 = "processGroup ?clk ?ir (''p2:1'', [?e2, ?e2]) (rankedEngine, [])"
  let ?acc2 = "processGroup ?clk ?ir (''p1:1'', [?e1, ?e1]) ?acc1"
  let ?st2 = "applyEvent ?clk ?e2 (applyEvent ?clk ?e2 rankedStore)"
  have batch: "eachBatch ?clk overtakeBatch rankedEngine = fst ?acc2"
    by (simp add: eachBatch_def Let_def case_prod_beta group_overtakeBatch standaloneOf_def
        processStandalone_def parse_overtakeBatch [THEN arg_cong, of "\<lambda>x. x = []"])
  have g1: "published (fst ?acc1)
            = rankNote ?e2 (Some 2) (getPlayerRank (applyEvent ?clk ?e2 rankedStore) (JNum 1) (JStr ''p2''))
              @ spec_group ?clk [?e2] (applyEvent ?clk ?e2 rankedStore)"
    using hot_group_rank_changes [of rankedEngine ?e2 "[?e2]" "''p2:1''" "[]" ?clk ?ir]
    by (simp add: eventKey_scoreEvent dec_int_1 snapshot_overtakeBatch)
       (simp add: scoreEvent_def)
  have st1: "redis (fst ?acc1) = ?st2" and tail1: "\<not> isRebuilding (fst ?acc1)"
    and cr1: "map_of (snd ?acc1) ''p1:1'' = None"
    by (simp_all add: processGroup_parts)
  have g2: "published (fst ?acc2)
            = published (fst ?acc1)
              @ rankNote ?e1 (Some 1) (getPlayerRank (applyEvent ?clk ?e1 ?st2) (JNum 1) (JStr ''p1''))
              @ spec_group ?clk [?e1] (applyEvent ?clk ?e1 ?st2)"
    using hot_group_rank_changes [of "fst ?acc1" ?e1 "[?e1]" "''p1:1''" "snd ?acc1" ?clk ?ir] tail1 cr1
    by (simp add: eventKey_scoreEvent dec_int_1 snapshot_overtakeBatch st1)
       (simp add: scoreEvent_def)
  have n2: "rankNote ?e2 (Some 2) (getPlayerRank (applyEvent ?clk ?e2 rankedStore) (JNum 1) (JStr ''p2''))
            = [\<lparr>n_gameMode = JNum 1, n_playerId = JStr ''p2'', newRank = 1, oldRank = Some 2, n_score = 15\<rparr>]"
    by (simp add: rank_eval rankNote_def)
  have s2: "spec_group ?clk [?e2] (applyEvent ?clk ?e2 rankedStore) = []"
    by (simp add: rank_eval rankNote_def)
  have n1: "rankNote ?e1 (Some 1) (getPlayerRank (applyEvent ?clk ?e1 ?st2) (JNum 1) (JStr ''p1''))
            = [\<lparr>n_gameMode = JNum 1, n_playerId = JStr ''p1'', newRank = 2, oldRank = Some 1, n_score = 11\<rparr>]"
    by (simp add: rank_eval rankNote_def)
  have s1: "spec_group ?clk [?e1] (applyEvent ?clk ?e1 ?st2) = []"
    by (simp add: rank_eval rankNote_def)
  have s0: "spec_group ?clk [?e1, ?e1] ?st2 = []"
    by (simp add: rank_eval rankNote_def)
  have f: "fold (applyEvent ?clk) [?e2, ?e2] rankedStore = ?st2"
    by simp
  show ?thesis
    unfolding batch g2 g1 n2 s2 n1 s1 f s0 by simp
qed


theorem hot_group_notifications_witness:
  "\<not> isRebuilding rankedEngine
   \<and> groupEvents (parseMessages overtakeBatch [])
       = [(''p2:1'', [scoreEvent ''p2'' 1 10, scoreEvent ''p2'' 1 10])]
         @ (''p1:1'', scoreEvent ''p1'' 1 1 # [scoreEvent ''p1'' 1 1]) # []
   \<and> initialRankOf (snapshotRanks (redis rankedEngine) (parseMessages overtakeBatch []) []) ''p1:1''
       = map_option fst (getPlayerRank (redis rankedEngine) (gameMode (scoreEvent ''p1'' 1 1))
                           (playerId (scoreEvent ''p1'' 1 1)))
   \<and> published (fst (processGroup saturdayNoon
          (snapshotRanks (redis rankedEngine) (parseMessages overtakeBatch []) [])
          (''p1:1'', [scoreEvent ''p1'' 1 1, scoreEvent ''p1'' 1 1])
          (fold (processGroup saturdayNoon
                   (snapshotRanks (redis rankedEngine) (parseMessages overtakeBatch []) []))
             [(''p2:1'', [scoreEvent ''p2'' 1 10, scoreEvent ''p2'' 1 10])] (rankedEngine, []))))
       = published (fst (fold (processGroup saturdayNoon
                   (snapshotRanks (redis rankedEngine) (parseMessages overtakeBatch []) []))
             [(''p2:1'', [scoreEvent ''p2'' 1 10, scoreEvent ''p2'' 1 10])] (rankedEngine, [])))
         @ rankNote (scoreEvent ''p1'' 1 1)
             (initialRankOf (snapshotRanks (redis rankedEngine) (parseMessages overtakeBatch []) []) ''p1:1'')
             (getPlayerRank
                (applyEvent saturdayNoon (scoreEvent ''p1'' 1 1)
                   (redis (fst (fold (processGroup saturdayNoon
                      (snapshotRanks (redis rankedEngine) (parseMessages overtakeBatch []) []))
                      [(''p2:1'', [scoreEvent ''p2'' 1 10, scoreEvent ''p2'' 1 10])] (rankedEngine, [])))))
                (gameMode (scoreEvent ''p1'' 1 1)) (playerId (scoreEvent ''p1'' 1 1)))
         @ spec_group saturdayNoon [scoreEvent ''p1'' 1 1]
             (applyEvent saturdayNoon (scoreEvent ''p1'' 1 1)
                (redis (fst (fold (processGroup saturdayNoon
                   (snapshotRanks (redis rankedEngine) (parseMessages overtakeBatch []) []))
                   [(''p2:1'', [scoreEvent ''p2'' 1 10, scoreEvent ''p2'' 1 10])] (rankedEngine, [])))))"
proof -
  have h: "groupEvents (parseMessages overtakeBatch [])
       = [(''p2:1'', [scoreEvent ''p2'' 1 10, scoreEvent ''p2'' 1 10])]
         @ (''p1:1'', scoreEvent ''p1'' 1 1 # [scoreEvent ''p1'' 1 1]) # []"
    by (simp add: group_overtakeBatch)
  have t: "\<forall>e \<in> set (parseMessages overtakeBatch []). typedEvent e"
    by (simp add: parse_overtakeBatch)
  have r: "[scoreEvent ''p1'' 1 1] \<noteq> []"
    by simp
  show ?thesis
    using hot_group_notifications [OF rankedEngine_fields(2) t h r refl refl, of saturdayNoon]
          rankedEngine_fields(2) h t
    by blast
qed

section \<open>The recovery check decides as described\<close>

lemma playerKeysOf_scan:
  "playerKeysOf (snd (scanPlayers st cursor)) = countedIn (take 100 (drop cursor (allKeys st)))"
  by (auto simp: playerKeysOf_def scanPlayers_def countedIn_def intro: filter_cong)

lemma countedIn_append: "countedIn (xs @ ys) = countedIn xs @ countedIn ys"
  by (simp add: countedIn_def)

lemma countedIn_drop:
  "countedIn (drop cursor ks) = countedIn (take 100 (drop cursor ks)) @ countedIn (drop (cursor + 100) ks)"
proof -
  have "drop cursor ks = take 100 (drop cursor ks) @ drop 100 (drop cursor ks)"
    by (simp only: append_take_drop_id)
  also have "drop 100 (drop cursor ks) = drop (cursor + 100) ks"
    by (simp only: drop_drop add.commute)
  finally have "countedIn (drop cursor ks) = countedIn (take 100 (drop cursor ks) @ drop (cursor + 100) ks)"
    by (rule arg_cong)
  then show ?thesis
    by (simp only: countedIn_append)
qed

lemma scan_last:
  assumes "fst (scanPlayers st cursor) = 0"
  shows "countedIn (drop (cursor + 100) (allKeys st)) = []"
proof -
  have "length (allKeys st) \<le> cursor + 100"
    using assms unfolding scanPlayers_def fst_conv by (cases "length (allKeys st) \<le> cursor + 100") simp_all
  then have "drop (cursor + 100) (allKeys st) = []"
    by simp
  then show ?thesis
    by (simp only: countedIn_def filter.simps)
qed

lemma scan_next:
  assumes "fst (scanPlayers st cursor) \<noteq> 0"
  shows "fst (scanPlayers st cursor) = cursor + 100"
  using assms unfolding scanPlayers_def fst_conv
  by (cases "length (allKeys st) \<le> cursor + 100") simp_all

lemma tick_None: "tick None = Inr None"
  by (simp add: tick_def)

lemma scanAnyPlayer_step:
  "tick c = Inl e \<Longrightarrow> scanAnyPlayer st c cursor playerCount = Inl e"
  "tick c = Inr c' \<Longrightarrow> scanAnyPlayer st c cursor playerCount =
     (if playerCount + length (countedIn (take 100 (drop cursor (allKeys st)))) > 0 then Inr False
      else if fst (scanPlayers st cursor) \<noteq> 0
      then scanAnyPlayer st c' (fst (scanPlayers st cursor))
             (playerCount + length (countedIn (take 100 (drop cursor (allKeys st)))))
      else Inr (playerCount + length (countedIn (take 100 (drop cursor (allKeys st)))) = 0))"
   apply (subst scanAnyPlayer.simps, simp only: sum.case)
  apply (subst scanAnyPlayer.simps, simp only: sum.case Let_def playerKeysOf_scan)
  done

lemma countPlayers_step:
  "tick c = Inl e \<Longrightarrow> countPlayers st c cursor playerCount = Inl e"
  "tick c = Inr c' \<Longrightarrow> countPlayers st c cursor playerCount =
     (if fst (scanPlayers st cursor) \<noteq> 0
      then countPlayers st c' (fst (scanPlayers st cursor))
             (playerCount + length (countedIn (take 100 (drop cursor (allKeys st)))))
      else Inr (playerCount + length (countedIn (take 100 (drop cursor (allKeys st))))))"
   apply (subst countPlayers.simps, simp only: sum.case)
  apply (subst countPlayers.simps, simp only: sum.case Let_def playerKeysOf_scan)
  done

lemma scanAnyPlayer_result:
  "scanAnyPlayer st c cursor playerCount = Inr b \<Longrightarrow>
   b = (playerCount = 0 \<and> countedIn (drop cursor (allKeys st)) = [])"
proof (induction st c cursor playerCount rule: scanAnyPlayer.induct)
  case (1 st c cursor playerCount)
  from "1.prems" obtain c' where t: "tick c = Inr c'"
    by (cases "tick c") (simp_all add: scanAnyPlayer_step(1))
  let ?pc = "playerCount + length (countedIn (take 100 (drop cursor (allKeys st))))"
  note step = scanAnyPlayer_step(2) [OF t, of st cursor playerCount]
  show ?case
  proof (cases "?pc > 0")
    case True
    then have "b = False"
      using "1.prems" by (simp add: step)
    moreover have "\<not> (playerCount = 0 \<and> countedIn (drop cursor (allKeys st)) = [])"
      using True countedIn_drop [of cursor "allKeys st"] by auto
    ultimately show ?thesis by simp
  next
    case False
    then have z: "playerCount = 0" "countedIn (take 100 (drop cursor (allKeys st))) = []"
      by simp_all
    show ?thesis
    proof (cases "fst (scanPlayers st cursor) \<noteq> 0")
      case True
      then have "scanAnyPlayer st c' (cursor + 100) ?pc = Inr b"
        using "1.prems" False scan_next [OF True]
        by (simp add: step)
      then have "b = (?pc = 0 \<and> countedIn (drop (cursor + 100) (allKeys st)) = [])"
        using "1.IH" [OF t refl _ True] False scan_next [OF True]
        by (simp add: playerKeysOf_scan)
      then show ?thesis
        using z countedIn_drop [of cursor "allKeys st"] by simp
    next
      case last: False
      then have "b = True"
        using "1.prems" False
        by (simp add: step)
      then show ?thesis
        using z countedIn_drop [of cursor "allKeys st"] scan_last [of st cursor] last by simp
    qed
  qed
qed

lemma countPlayers_result:
  "countPlayers st c cursor playerCount = Inr n \<Longrightarrow>
   n = playerCount + length (countedIn (drop cursor (allKeys st)))"
proof (induction st c cursor playerCount arbitrary: n rule: countPlayers.induct)
  case (1 st c cursor playerCount)
  from "1.prems" obtain c' where t: "tick c = Inr c'"
    by (cases "tick c") (simp_all add: countPlayers_step(1))
  let ?pc = "playerCount + length (countedIn (take 100 (drop cursor (allKeys st))))"
  note step = countPlayers_step(2) [OF t, of st cursor playerCount]
  show ?case
  proof (cases "fst (scanPlayers st cursor) \<noteq> 0")
    case True
    then have "countPlayers st c' (cursor + 100) ?pc = Inr n"
      using "1.prems" scan_next [OF True]
      by (simp add: step)
    then have "n = ?pc + length (countedIn (drop (cursor + 100) (allKeys st)))"
      using "1.IH" [OF t refl True] scan_next [OF True]
      by (simp add: playerKeysOf_scan)
    then show ?thesis
      using countedIn_drop [of cursor "allKeys st"] by simp
  next
    case False
    then have "n = ?pc"
      using "1.prems"
      by (simp add: step)
    then show ?thesis
      using countedIn_drop [of cursor "allKeys st"] scan_last [of st cursor] False by simp
  qed
qed

lemma anyLeaderboard_result:
  "anyLeaderboard st c ids = Inr (found, c') \<Longrightarrow>
   found = (\<exists>i \<in> set ids. zcard st (globalKey (JNum i)) > 0)"
  by (induction ids arbitrary: c) (auto split: sum.splits if_splits)

lemma parseModes_result: "parseModes entries = Inr ids \<Longrightarrow>
   ids = concat (map (\<lambda>(field, v). case v of None \<Rightarrow> [] | Some i \<Rightarrow> [i]) entries)"
  by (induction entries arbitrary: ids rule: parseModes.induct) (auto split: sum.splits)

lemma getAllGameModes_result:
  assumes "getAllGameModes st c = Inr (ids, c')"
  shows "set ids = set (knownModeIds st) \<and> length ids = length (knownModeIds st)"
proof -
  from assms obtain raw where "parseModes (game_modes st) = Inr raw" and "ids = sort raw"
    by (auto simp: getAllGameModes_def split: sum.splits)
  then show ?thesis
    using parseModes_result [of "game_modes st" raw] by (simp add: knownModeIds_def)
qed

lemma needsRebuild_body_result:
  assumes "needsRebuild_body st c = Inr b"
  shows "b = ((\<forall>i \<in> set (knownModeIds st). zcard st (globalKey (JNum i)) = 0)
              \<and> countedKeys st = [])"
proof -
  from assms obtain ids c1 where g: "getAllGameModes st c = Inr (ids, c1)"
    by (auto simp: needsRebuild_body_def split: sum.splits)
  note k = getAllGameModes_result [OF g]
  have p: "countedKeys st = countedIn (drop 0 (allKeys st))"
    by (simp add: countedKeys_def)
  show ?thesis
  proof (cases "ids = []")
    case True
    then have "scanAnyPlayer st c1 0 0 = Inr b"
      using assms by (simp add: needsRebuild_body_def g)
    from scanAnyPlayer_result [OF this] show ?thesis
      using True k by (simp add: p)
  next
    case False
    then obtain found c2 where a: "anyLeaderboard st c1 ids = Inr (found, c2)"
      using assms by (auto simp: needsRebuild_body_def g split: sum.splits)
    note f = anyLeaderboard_result [OF a]
    show ?thesis
    proof (cases found)
      case True
      then have "b = False"
        using assms False by (simp add: needsRebuild_body_def g a)
      then show ?thesis
        using True f k by auto
    next
      case nf: False
      then obtain n where n: "countPlayers st c2 0 0 = Inr n" and b: "b = (n = 0)"
        using assms False by (auto simp: needsRebuild_body_def g a split: sum.splits)
      from countPlayers_result [OF n] show ?thesis
        using nf f k b by (auto simp: p)
    qed
  qed
qed


subsection \<open>A store that answers raises nothing\<close>

lemma scanAnyPlayer_total: "c = None \<Longrightarrow> \<exists>b. scanAnyPlayer st c cursor playerCount = Inr b"
proof (induction st c cursor playerCount rule: scanAnyPlayer.induct)
  case (1 st c cursor playerCount)
  have t: "tick c = Inr None"
    using "1.prems" by (simp add: tick_None)
  note step = scanAnyPlayer_step(2) [OF t, of st cursor playerCount]
  show ?case
  proof (cases "playerCount + length (playerKeysOf (snd (scanPlayers st cursor))) > 0")
    case True
    then show ?thesis unfolding step by (auto simp: playerKeysOf_scan)
  next
    case False
    show ?thesis
    proof (cases "fst (scanPlayers st cursor) \<noteq> 0")
      case True
      from "1.IH" [OF t refl False True refl] show ?thesis
        unfolding step using False True by (auto simp: playerKeysOf_scan)
    next
      case last: False
      then show ?thesis unfolding step using False by (auto simp: playerKeysOf_scan)
    qed
  qed
qed

lemma countPlayers_total: "c = None \<Longrightarrow> \<exists>n. countPlayers st c cursor playerCount = Inr n"
proof (induction st c cursor playerCount rule: countPlayers.induct)
  case (1 st c cursor playerCount)
  have t: "tick c = Inr None"
    using "1.prems" by (simp add: tick_None)
  note step = countPlayers_step(2) [OF t, of st cursor playerCount]
  show ?case
  proof (cases "fst (scanPlayers st cursor) \<noteq> 0")
    case True
    from "1.IH" [OF t refl True refl] show ?thesis
      using True by (auto simp: step playerKeysOf_scan)
  next
    case False
    then show ?thesis by (auto simp: step)
  qed
qed

lemma anyLeaderboard_total: "\<exists>found. anyLeaderboard st None ids = Inr (found, None)"
  by (induction ids) (auto simp: tick_None)

lemma parseModes_total:
  "\<forall>entry \<in> set entries. snd entry \<noteq> None \<Longrightarrow> \<exists>ids. parseModes entries = Inr ids"
  by (induction entries rule: parseModes.induct) auto

lemma needsRebuild_body_total:
  assumes "\<forall>entry \<in> set (game_modes st). snd entry \<noteq> None"
  shows "\<not> isl (needsRebuild_body st None)"
proof -
  obtain ids where p: "parseModes (game_modes st) = Inr ids"
    using parseModes_total [OF assms] by blast
  obtain found where a: "anyLeaderboard st None (sort ids) = Inr (found, None)"
    using anyLeaderboard_total by blast
  obtain b where s: "scanAnyPlayer st None 0 0 = Inr b"
    using scanAnyPlayer_total [OF refl] by blast
  obtain n where c: "countPlayers st None 0 0 = Inr n"
    using countPlayers_total [OF refl] by blast
  show ?thesis
    by (simp add: needsRebuild_body_def getAllGameModes_def tick_None p a s c)
qed

text \<open>
  \<open>needsRebuild\<close> returns true exactly when the check raises an error or no global
  leaderboard of a known game mode has a member and the key space holds no key that
  the scan counts; on a store without game modes this is: an error is raised or there
  is no such key. With a store that answers every call and game modes that all decode,
  no error is raised, so that the answer is the condition itself.
\<close>

lemma needsRebuild_decides:
  "needsRebuild st c
     = (isl (needsRebuild_body st c)
        \<or> ((\<forall>i \<in> set (knownModeIds st). zcard st (globalKey (JNum i)) = 0)
           \<and> countedKeys st = []))
   \<and> (game_modes st = [] \<longrightarrow>
        needsRebuild st c = (isl (needsRebuild_body st c) \<or> countedKeys st = []))
   \<and> ((\<forall>entry \<in> set (game_modes st). snd entry \<noteq> None) \<longrightarrow> \<not> isl (needsRebuild_body st None))"
proof -
  have 1: "needsRebuild st c
     = (isl (needsRebuild_body st c)
        \<or> ((\<forall>i \<in> set (knownModeIds st). zcard st (globalKey (JNum i)) = 0)
           \<and> countedKeys st = []))"
  proof (cases "needsRebuild_body st c")
    case (Inl e)
    then show ?thesis by (simp add: needsRebuild_def)
  next
    case (Inr b)
    from needsRebuild_body_result [OF this] show ?thesis
      by (simp add: needsRebuild_def Inr)
  qed
  have 2: "game_modes st = [] \<longrightarrow>
        needsRebuild st c = (isl (needsRebuild_body st c) \<or> countedKeys st = [])"
    using 1 by (simp add: knownModeIds_def)
  show ?thesis
    using 1 2 needsRebuild_body_total by blast
qed

lemma needsRebuild_playerOnlyStore:
  "countedKeys playerOnlyStore = [''player:p1'']"
  "needsRebuild playerOnlyStore None = False"
  "needsRebuild playerOnlyStore (Some 0) = True"
  "needsRebuild emptyStore None = True"
proof -
  have m: "\<forall>entry \<in> set (game_modes playerOnlyStore). snd entry \<noteq> None"
    by (simp add: playerOnlyStore_def)
  have z: "\<forall>i \<in> set (knownModeIds playerOnlyStore). zcard playerOnlyStore (globalKey (JNum i)) = 0"
    by (simp add: knownModeIds_def playerOnlyStore_def emptyStore_def zcard_def zsetOf_def)
  show p: "countedKeys playerOnlyStore = [''player:p1'']"
    by (simp add: countedKeys_def countedIn_def allKeys_def playerOnlyStore_def
        emptyStore_def)
  have f: "isl (needsRebuild_body playerOnlyStore (Some 0))"
    by (simp add: needsRebuild_body_def getAllGameModes_def tick_def)
  have e: "game_modes emptyStore = []" "countedKeys emptyStore = []"
    "knownModeIds emptyStore = []"
    by (simp_all add: emptyStore_def countedKeys_def countedIn_def allKeys_def
        knownModeIds_def)
  show "needsRebuild playerOnlyStore None = False"
    using needsRebuild_decides [of playerOnlyStore None] m z p by simp
  show "needsRebuild playerOnlyStore (Some 0) = True"
    using needsRebuild_decides [of playerOnlyStore "Some 0"] f by simp
  show "needsRebuild emptyStore None = True"
    using needsRebuild_decides [of emptyStore None] e by simp
qed

subsection \<open>A player id that contains the name of the rate limiter's key\<close>

lemma startsWith_iff: "startsWith s p = (\<exists>r. s = p @ r)"
  by (induction s p rule: startsWith.induct) auto

lemma rateLimiterKey_iff:
  "rateLimiterKey k = (\<exists>playerId. k = ''player:'' @ playerId @ '':last_submission'')"
proof
  assume "rateLimiterKey k"
  then obtain r where r: "k = ''player:'' @ r" and e: "endsWith r '':last_submission''"
    by (auto simp: rateLimiterKey_def startsWith_iff)
  from e obtain q where "rev r = rev '':last_submission'' @ q"
    unfolding endsWith_def startsWith_iff by blast
  then have "r = rev q @ '':last_submission''"
    by (metis rev_append rev_rev_ident)
  with r show "\<exists>playerId. k = ''player:'' @ playerId @ '':last_submission''"
    by blast
next
  assume "\<exists>playerId. k = ''player:'' @ playerId @ '':last_submission''"
  then obtain i where "k = ''player:'' @ i @ '':last_submission''"
    by blast
  then show "rateLimiterKey k"
    by (simp add: rateLimiterKey_def endsWith_def startsWith_iff)
qed

lemma includes_js_iff: "includes_js s needle = (\<exists>xs ys. s = xs @ needle @ ys)"
proof (induction s)
  case Nil
  then show ?case by auto
next
  case (Cons c cs)
  show ?case
  proof
    assume "includes_js (c # cs) needle"
    then consider "startsWith (c # cs) needle" | "includes_js cs needle"
      by auto
    then show "\<exists>xs ys. c # cs = xs @ needle @ ys"
    proof cases
      case 1
      then obtain r where "c # cs = needle @ r"
        by (auto simp: startsWith_iff)
      then have "c # cs = [] @ needle @ r"
        by simp
      then show ?thesis by blast
    next
      case 2
      then obtain xs ys where "cs = xs @ needle @ ys"
        using Cons.IH by blast
      then have "c # cs = (c # xs) @ needle @ ys"
        by simp
      then show ?thesis by blast
    qed
  next
    assume "\<exists>xs ys. c # cs = xs @ needle @ ys"
    then obtain xs ys where e: "c # cs = xs @ needle @ ys"
      by blast
    show "includes_js (c # cs) needle"
    proof (cases xs)
      case Nil
      then have "startsWith (c # cs) needle"
        using e by (auto simp: startsWith_iff)
      then show ?thesis by simp
    next
      case (Cons x xs')
      then have "cs = xs' @ needle @ ys"
        using e by simp
      then have "includes_js cs needle"
        using Cons.IH by blast
      then show ?thesis by simp
    qed
  qed
qed

text \<open>
  Every key of the rate limiter is set aside by the filter of the scan, and the scan
  counts only player records.
\<close>

lemma rateLimiterKey_filtered:
  assumes "rateLimiterKey k"
  shows "includes_js k '':last_submission''"
proof -
  from assms obtain playerId where "k = ''player:'' @ playerId @ '':last_submission''"
    unfolding rateLimiterKey_iff by blast
  then have "k = (''player:'' @ playerId) @ '':last_submission'' @ []"
    by simp
  then have "\<exists>xs ys. k = xs @ '':last_submission'' @ ys"
    by (intro exI)
  then show ?thesis
    by (simp only: includes_js_iff)
qed

lemma countedKeys_playerRecords: "set (countedKeys st) \<subseteq> set (playerRecords st)"
proof
  fix k
  assume "k \<in> set (countedKeys st)"
  then have k: "k \<in> set (allKeys st)" "startsWith k ''player:''"
    "\<not> includes_js k '':last_submission''"
    by (simp_all add: countedKeys_def countedIn_def)
  from k(3) have "\<not> rateLimiterKey k"
    using rateLimiterKey_filtered by blast
  with k(1,2) show "k \<in> set (playerRecords st)"
    by (simp add: playerRecords_def)
qed

text \<open>
  C5. The filter sets aside more than the keys of the rate limiter: every key that
  contains \<open>:last_submission\<close> anywhere, and so the record of a player whose id contains
  it. \<open>teamStore\<close> holds the record of the player \<open>team:last_submissions\<close>, whose key is
  not a key of the rate limiter, and no leaderboard member. The scan counts no key and
  \<open>needsRebuild\<close> answers true, with seeded game modes and without, although a player
  record exists. On \<open>playerOnlyStore\<close>, which differs in the player's id only, it answers
  false.
\<close>

theorem needsRebuild_overlooks_player:
  "playerRecords teamStore = [''player:team:last_submissions'']
   \<and> \<not> rateLimiterKey ''player:team:last_submissions''
   \<and> includes_js ''player:team:last_submissions'' '':last_submission''
   \<and> countedKeys teamStore = []
   \<and> needsRebuild teamStore None = True
   \<and> needsRebuild (teamStore\<lparr>game_modes := []\<rparr>) None = True
   \<and> playerRecords playerOnlyStore = [''player:p1'']
   \<and> needsRebuild playerOnlyStore None = False"
proof -
  have r: "playerRecords teamStore = [''player:team:last_submissions'']"
    "\<not> rateLimiterKey ''player:team:last_submissions''"
    "includes_js ''player:team:last_submissions'' '':last_submission''"
    "playerRecords playerOnlyStore = [''player:p1'']"
    by (simp_all add: playerRecords_def rateLimiterKey_def endsWith_def allKeys_def teamStore_def
        playerOnlyStore_def emptyStore_def)
  have c: "countedKeys teamStore = []" "countedKeys (teamStore\<lparr>game_modes := []\<rparr>) = []"
    by (simp_all add: countedKeys_def countedIn_def allKeys_def teamStore_def emptyStore_def)
  have m: "\<forall>entry \<in> set (game_modes teamStore). snd entry \<noteq> None"
    "\<forall>entry \<in> set (game_modes (teamStore\<lparr>game_modes := []\<rparr>)). snd entry \<noteq> None"
    by (simp_all add: teamStore_def)
  have z: "\<forall>i \<in> set (knownModeIds teamStore). zcard teamStore (globalKey (JNum i)) = 0"
    "knownModeIds (teamStore\<lparr>game_modes := []\<rparr>) = []"
    by (simp_all add: knownModeIds_def teamStore_def emptyStore_def zcard_def zsetOf_def)
  have 1: "needsRebuild teamStore None = True"
    using needsRebuild_decides [of teamStore None] m(1) z(1) c(1) by simp
  have 2: "needsRebuild (teamStore\<lparr>game_modes := []\<rparr>) None = True"
    using needsRebuild_decides [of "teamStore\<lparr>game_modes := []\<rparr>" None] m(2) z(2) c(2) by simp
  show ?thesis
    using r c(1) 1 2 needsRebuild_playerOnlyStore(2) by simp
qed

end
